theory Spec2Isabelle
  imports Complex_Main "HOL-Library.Sublist"
begin

section \<open>Strings\<close>

text \<open>
  A JavaScript string is a sequence of UTF-16 code units.  The regular expressions of the
  source carry no \<open>u\<close> flag and \<open>substring\<close> counts code units, so a string is modelled as
  the list of its code units, each a natural number.  \<open>js\<close> writes a literal.
\<close>

type_synonym jsstring = "nat list"

definition js :: "string \<Rightarrow> jsstring" where
  "js s = map of_char s"

section \<open>fileSizeAnalyzer.js\<close>

text \<open>
  The two snapshots held by \<open>FileSizeAnalyzer\<close>.  Sizes are the byte counts of \<open>fs.stat\<close>,
  integers; \<open>null\<close> is \<open>None\<close>.
\<close>

record SizeRecord =
  sr_name :: jsstring
  sr_size :: int
  sr_error :: "jsstring option"

record InputData =
  in_files :: "SizeRecord list"
  in_totalSize :: int
  in_totalFiles :: int

record OutputData =
  out_files :: "SizeRecord list"
  out_totalSize :: int
  out_totalFiles :: int
  out_successfulFiles :: int

record FileSizeAnalyzer =
  inputStats :: "InputData option"
  outputStats :: "OutputData option"

record CompressionStats =
  inputSize :: int
  outputSize :: int
  savings :: int
  compressionRatio :: real
  inputFiles :: int
  outputFiles :: int
  failedFiles :: int

datatype analyzer_error = MustMeasureFirst

text \<open>
  \<open>calculateStats\<close>.  The quotient \<open>savings / inputSize\<close> is a division of doubles in the
  source; it is modelled by the exact quotient of the two integers.
\<close>

definition calculateStats :: "FileSizeAnalyzer \<Rightarrow> analyzer_error + CompressionStats" where
  "calculateStats a =
     (case inputStats a of
        None \<Rightarrow> Inl MustMeasureFirst
      | Some i \<Rightarrow>
         (case outputStats a of
            None \<Rightarrow> Inl MustMeasureFirst
          | Some out \<Rightarrow>
             (let inSize = in_totalSize i;
                  outSize = out_totalSize out;
                  sav = inSize - outSize;
                  ratio = (if inSize > 0 then (real_of_int sav / real_of_int inSize) * 100 else 0)
              in Inr \<lparr> inputSize = inSize,
                       outputSize = outSize,
                       savings = sav,
                       compressionRatio = ratio,
                       inputFiles = in_totalFiles i,
                       outputFiles = out_successfulFiles out,
                       failedFiles = in_totalFiles i - out_successfulFiles out \<rparr>)))"

text \<open>An analyzer that has measured both sides, given by its four totals.\<close>

definition snapshots :: "int \<Rightarrow> int \<Rightarrow> int \<Rightarrow> int \<Rightarrow> FileSizeAnalyzer" where
  "snapshots inSize inCount outSize outOk =
     \<lparr> inputStats = Some \<lparr> in_files = [], in_totalSize = inSize, in_totalFiles = inCount \<rparr>,
       outputStats = Some \<lparr> out_files = [], out_totalSize = outSize,
                             out_totalFiles = inCount, out_successfulFiles = outOk \<rparr> \<rparr>"

section \<open>fileNameSanitizer.js\<close>

subsection \<open>Character classes of the regular expressions\<close>

definition underscore :: nat where "underscore = 95"
definition dot :: nat where "dot = 46"
definition slash :: nat where "slash = 47"
definition backslash :: nat where "backslash = 92"

text \<open>\<open>\w\<close> without the \<open>u\<close> and \<open>i\<close> flags: the ASCII letters, the digits and \<open>_\<close>.\<close>

definition isWordChar :: "nat \<Rightarrow> bool" where
  "isWordChar c \<longleftrightarrow> (48 \<le> c \<and> c \<le> 57) \<or> (65 \<le> c \<and> c \<le> 90) \<or> (97 \<le> c \<and> c \<le> 122) \<or> c = 95"

text \<open>\<open>\s\<close>: the white space and line terminator code units of ECMAScript.\<close>

definition isWhitespace :: "nat \<Rightarrow> bool" where
  "isWhitespace c \<longleftrightarrow>
     (9 \<le> c \<and> c \<le> 13) \<or> c = 32 \<or> c = 160 \<or> c = 5760 \<or> (8192 \<le> c \<and> c \<le> 8202)
     \<or> c = 8232 \<or> c = 8233 \<or> c = 8239 \<or> c = 8287 \<or> c = 12288 \<or> c = 65279"

text \<open>
  The safe set is what the class \<open>[^\w\s\-_.()[\]]\<close> excludes: word characters, white
  space, and the seven characters \<open>- _ . ( ) [ ]\<close>.
\<close>

definition isSafeChar :: "nat \<Rightarrow> bool" where
  "isSafeChar c \<longleftrightarrow>
     isWordChar c \<or> isWhitespace c
     \<or> c = 45 \<or> c = 95 \<or> c = 46 \<or> c = 40 \<or> c = 41 \<or> c = 91 \<or> c = 93"

definition problematicChars :: "nat \<Rightarrow> bool" where
  "problematicChars c \<longleftrightarrow> \<not> isSafeChar c"

subsection \<open>\<open>path.extname\<close> and \<open>path.basename\<close> on a file name\<close>

text \<open>
  Node's \<open>path\<close> module is not part of the repository.  The names handed to the sanitizer are
  directory entries, single path components; on such a name \<open>path.extname\<close> returns the
  part from the last \<open>.\<close> on, and the empty string when the name has no \<open>.\<close>, when its
  only \<open>.\<close> is the first character, and for the name \<open>..\<close>.  \<open>path.basename(p, sfx)\<close>
  removes \<open>sfx\<close> from the end of \<open>p\<close> when \<open>p\<close> ends with it, and returns the empty string
  when the two are equal.  \<open>pathComponent\<close> says that a name is a single component for the
  POSIX and for the Windows flavour of the module: it holds no separator and does not start
  with a drive letter and a colon.
\<close>

definition drivePrefix :: "jsstring \<Rightarrow> bool" where
  "drivePrefix p =
     (case p of
        a # b # rest \<Rightarrow> b = 58 \<and> ((65 \<le> a \<and> a \<le> 90) \<or> (97 \<le> a \<and> a \<le> 122))
      | _ \<Rightarrow> False)"

definition pathComponent :: "jsstring \<Rightarrow> bool" where
  "pathComponent p \<longleftrightarrow> slash \<notin> set p \<and> backslash \<notin> set p \<and> \<not> drivePrefix p"

definition afterLastDot :: "jsstring \<Rightarrow> jsstring" where
  "afterLastDot p = rev (takeWhile (\<lambda>c. c \<noteq> dot) (rev p))"

definition extname :: "jsstring \<Rightarrow> jsstring" where
  "extname p =
     (if dot \<notin> set p then []
      else if Suc (length (afterLastDot p)) = length p then []
      else if p = [dot, dot] then []
      else dot # afterLastDot p)"

definition basename :: "jsstring \<Rightarrow> jsstring \<Rightarrow> jsstring" where
  "basename p sfx =
     (if sfx \<noteq> [] \<and> length sfx \<le> length p then
        (if sfx = p then []
         else if drop (length p - length sfx) p = sfx
              then take (length p - length sfx) p
         else p)
      else p)"

subsection \<open>\<open>sanitizeFileName\<close>\<close>

text \<open>\<open>.replace(this.problematicChars, '_')\<close>: every match is one character.\<close>

definition replaceProblematicChars :: "jsstring \<Rightarrow> jsstring" where
  "replaceProblematicChars s = map (\<lambda>c. if problematicChars c then underscore else c) s"

text \<open>
  \<open>.replace(this.multipleSpaces, '_')\<close> with \<open>multipleSpaces = /\s+/g\<close>: scanning from the
  left, a match starts at every white space character and takes the whole run after it.
\<close>

function replaceMultipleSpaces :: "jsstring \<Rightarrow> jsstring" where
  "replaceMultipleSpaces [] = []"
| "replaceMultipleSpaces (c # cs) =
     (if isWhitespace c then underscore # replaceMultipleSpaces (dropWhile isWhitespace cs)
      else c # replaceMultipleSpaces cs)"
  by pat_completeness auto
termination
  by (relation "measure length") (auto simp: less_Suc_eq_le length_dropWhile_le)

text \<open>\<open>.substring(0, 100)\<close>.\<close>

definition substring0 :: "nat \<Rightarrow> jsstring \<Rightarrow> jsstring" where
  "substring0 n s = take n s"

text \<open>\<open>.replace(/^_+|_+$/g, '')\<close>: the leading and the trailing run of \<open>_\<close> go.\<close>

definition trimUnderscores :: "jsstring \<Rightarrow> jsstring" where
  "trimUnderscores s =
     rev (dropWhile (\<lambda>c. c = underscore) (rev (dropWhile (\<lambda>c. c = underscore) s)))"

definition fallbackName :: jsstring where
  "fallbackName = js ''sanitized_file''"

definition sanitizeBase :: "jsstring \<Rightarrow> jsstring" where
  "sanitizeBase baseName =
     (let sanitized = substring0 100 (replaceMultipleSpaces (replaceProblematicChars baseName));
          sanitized = trimUnderscores sanitized
      in if sanitized = [] then fallbackName else sanitized)"

definition sanitizeFileName :: "jsstring \<Rightarrow> jsstring" where
  "sanitizeFileName originalName =
     (let ext = extname originalName;
          baseName = basename originalName ext
      in sanitizeBase baseName @ ext)"

subsection \<open>The sanitizer in the words of its specification\<close>

text \<open>
  The specification says that repeated white space collapses to a single \<open>_\<close>; read
  literally, a run of two or more white space characters becomes one \<open>_\<close> and a single
  white space character stays.  \<open>sanitize_spec\<close> is that reading.  \<open>sanitize_amended\<close> adds
  one step to it: a white space character that is left is replaced by \<open>_\<close> too.
\<close>

function collapseRepeatedWhitespace :: "jsstring \<Rightarrow> jsstring" where
  "collapseRepeatedWhitespace [] = []"
| "collapseRepeatedWhitespace (c # cs) =
     (if isWhitespace c \<and> cs \<noteq> [] \<and> isWhitespace (hd cs)
      then underscore # collapseRepeatedWhitespace (dropWhile isWhitespace cs)
      else c # collapseRepeatedWhitespace cs)"
  by pat_completeness auto
termination
  by (relation "measure length") (auto simp: less_Suc_eq_le length_dropWhile_le)

definition whitespaceToUnderscore :: "jsstring \<Rightarrow> jsstring" where
  "whitespaceToUnderscore s = map (\<lambda>c. if isWhitespace c then underscore else c) s"

definition unsafeToUnderscore :: "jsstring \<Rightarrow> jsstring" where
  "unsafeToUnderscore s = map (\<lambda>c. if isSafeChar c then c else underscore) s"

definition withoutExtension :: "jsstring \<Rightarrow> jsstring" where
  "withoutExtension p = take (length p - length (extname p)) p"

definition orFallback :: "jsstring \<Rightarrow> jsstring" where
  "orFallback s = (if s = [] then js ''sanitized_file'' else s)"

definition sanitize_spec :: "jsstring \<Rightarrow> jsstring" where
  "sanitize_spec p =
     orFallback (trimUnderscores (take 100
        (collapseRepeatedWhitespace (unsafeToUnderscore (withoutExtension p)))))
     @ extname p"

definition sanitize_amended :: "jsstring \<Rightarrow> jsstring" where
  "sanitize_amended p =
     orFallback (trimUnderscores (take 100
        (whitespaceToUnderscore (collapseRepeatedWhitespace (unsafeToUnderscore (withoutExtension p))))))
     @ extname p"

subsection \<open>Paths of the host\<close>

text \<open>
  \<open>path.join(dir, name)\<close> puts the separator of the host between a directory and a file
  name: \<open>/\<close> on a POSIX host, \<open>\\<close> on Windows.
\<close>

datatype host = Posix | Win32

definition hostSep :: "host \<Rightarrow> nat" where
  "hostSep h = (case h of Posix \<Rightarrow> slash | Win32 \<Rightarrow> backslash)"

definition pathJoin :: "host \<Rightarrow> jsstring \<Rightarrow> jsstring \<Rightarrow> jsstring" where
  "pathJoin h d n = d @ hostSep h # n"

subsection \<open>Results of processing one file\<close>

text \<open>
  The result objects \<open>{original, compressed, success: true, finalPath}\<close> and
  \<open>{original, error, success: false}\<close>; \<open>finalPath\<close> is absent in some results of the
  imagemin variant.
\<close>

datatype ProcessingResult =
    Success jsstring jsstring "jsstring option"
  | Failure jsstring jsstring

fun isSuccess :: "ProcessingResult \<Rightarrow> bool" where
  "isSuccess (Success original compressed finalPath) = True"
| "isSuccess (Failure original err) = False"

subsection \<open>\<open>createTempFiles\<close> and \<open>restoreOriginalNames\<close>\<close>

record ImageFile =
  f_name :: jsstring
  f_fullPath :: jsstring
  f_extension :: jsstring
  f_relativePath :: jsstring

record TempInfo =
  ti_original :: jsstring
  ti_originalName :: jsstring

record TempFile =
  tf_originalName :: jsstring
  tf_originalPath :: jsstring
  tf_sanitizedName :: jsstring
  tf_tempPath :: jsstring
  tf_extension :: jsstring

text \<open>The descriptor the codec returns for a file it has written.\<close>

record ProcessedFile =
  sourcePath :: jsstring
  destinationPath :: jsstring

text \<open>
  \<open>fs.copyFile\<close> and \<open>fs.rename\<close> belong to the environment: an outcome function gives,
  for the two paths of a call, \<open>None\<close> when the call resolves and the message of the error
  when it rejects.
\<close>

type_synonym fs_outcome = "jsstring \<Rightarrow> jsstring \<Rightarrow> jsstring option"

text \<open>
  \<open>createTempFiles\<close>: the loop copies each file under its sanitized name and records the
  mapping under the joined temp path; a copy that rejects ends the whole call.
\<close>

fun createTempLoop ::
  "host \<Rightarrow> fs_outcome \<Rightarrow> jsstring \<Rightarrow> ImageFile list \<Rightarrow> TempFile list \<Rightarrow> (jsstring \<rightharpoonup> TempInfo)
   \<Rightarrow> jsstring + (TempFile list \<times> (jsstring \<rightharpoonup> TempInfo))" where
  "createTempLoop h copyFile tempDirPath [] tempFiles tempFileMap = Inr (tempFiles, tempFileMap)"
| "createTempLoop h copyFile tempDirPath (imageFile # rest) tempFiles tempFileMap =
     (let sanitizedName = sanitizeFileName (f_name imageFile);
          tempPath = pathJoin h tempDirPath sanitizedName
      in case copyFile (f_fullPath imageFile) tempPath of
           Some msg \<Rightarrow> Inl msg
         | None \<Rightarrow>
             createTempLoop h copyFile tempDirPath rest
               (tempFiles @ [\<lparr> tf_originalName = f_name imageFile,
                               tf_originalPath = f_fullPath imageFile,
                               tf_sanitizedName = sanitizedName,
                               tf_tempPath = tempPath,
                               tf_extension = f_extension imageFile \<rparr>])
               (tempFileMap(tempPath \<mapsto> \<lparr> ti_original = f_fullPath imageFile,
                                             ti_originalName = f_name imageFile \<rparr>)))"

definition createTempFiles ::
  "host \<Rightarrow> fs_outcome \<Rightarrow> (jsstring \<rightharpoonup> TempInfo) \<Rightarrow> ImageFile list \<Rightarrow> jsstring
   \<Rightarrow> jsstring + (TempFile list \<times> (jsstring \<rightharpoonup> TempInfo))" where
  "createTempFiles h copyFile tempFileMap imageFiles tempDirPath =
     createTempLoop h copyFile tempDirPath imageFiles [] tempFileMap"

text \<open>\<open>file.sourcePath.replace(/\//g, '\\')\<close>.\<close>

definition normalizeSourcePath :: "jsstring \<Rightarrow> jsstring" where
  "normalizeSourcePath p = map (\<lambda>c. if c = slash then backslash else c) p"

text \<open>
  \<open>restoreOriginalNames\<close>: the loop over the processed files, each pushing one entry onto
  \<open>restoredFiles\<close>.
\<close>

fun restoreLoop ::
  "host \<Rightarrow> fs_outcome \<Rightarrow> (jsstring \<rightharpoonup> TempInfo) \<Rightarrow> jsstring \<Rightarrow> ProcessedFile list
   \<Rightarrow> ProcessingResult list \<Rightarrow> ProcessingResult list" where
  "restoreLoop h rename tempFileMap outputDir [] restoredFiles = restoredFiles"
| "restoreLoop h rename tempFileMap outputDir (file # rest) restoredFiles =
     (let normalizedSourcePath = normalizeSourcePath (sourcePath file)
      in case tempFileMap normalizedSourcePath of
           None \<Rightarrow>
             restoreLoop h rename tempFileMap outputDir rest
               (restoredFiles @ [Failure (js ''unknown'') (js ''No mapping found'')])
         | Some tempInfo \<Rightarrow>
             (let originalBaseName =
                    basename (ti_originalName tempInfo) (extname (ti_originalName tempInfo));
                  newFileName = originalBaseName @ js ''.webp'';
                  newPath = pathJoin h outputDir newFileName
              in case rename (destinationPath file) newPath of
                   None \<Rightarrow>
                     restoreLoop h rename tempFileMap outputDir rest
                       (restoredFiles @ [Success (ti_originalName tempInfo) newFileName (Some newPath)])
                 | Some msg \<Rightarrow>
                     restoreLoop h rename tempFileMap outputDir rest
                       (restoredFiles @ [Failure (ti_originalName tempInfo) msg])))"

definition restoreOriginalNames ::
  "host \<Rightarrow> fs_outcome \<Rightarrow> (jsstring \<rightharpoonup> TempInfo) \<Rightarrow> ProcessedFile list \<Rightarrow> jsstring
   \<Rightarrow> ProcessingResult list" where
  "restoreOriginalNames h rename tempFileMap processedFiles outputDir =
     restoreLoop h rename tempFileMap outputDir processedFiles []"

subsection \<open>\<open>restoreNames\<close> in the words of its specification\<close>

text \<open>
  The specification has the lookup made on the staged source path normalized for the
  separator of the host: on Windows \<open>/\<close> becomes \<open>\\<close>, on a POSIX host the path stays as
  it is.  \<open>restoreNames_spec\<close> reports \<open>Success\<close> whenever the entry is there;
  \<open>restoreNames_amended\<close> reports the failure of the rename as well.
\<close>

definition hostNormalize :: "host \<Rightarrow> jsstring \<Rightarrow> jsstring" where
  "hostNormalize h p =
     (case h of Posix \<Rightarrow> p | Win32 \<Rightarrow> map (\<lambda>c. if c = slash then backslash else c) p)"

definition restoredName :: "TempInfo \<Rightarrow> jsstring" where
  "restoredName tempInfo = withoutExtension (ti_originalName tempInfo) @ js ''.webp''"

definition restoreNames_spec ::
  "host \<Rightarrow> (jsstring \<rightharpoonup> TempInfo) \<Rightarrow> ProcessedFile list \<Rightarrow> jsstring \<Rightarrow> ProcessingResult list" where
  "restoreNames_spec h tempFileMap processedFiles outputDir =
     map (\<lambda>file.
            case tempFileMap (hostNormalize h (sourcePath file)) of
              None \<Rightarrow> Failure (js ''unknown'') (js ''No mapping found'')
            | Some tempInfo \<Rightarrow>
                Success (ti_originalName tempInfo) (restoredName tempInfo)
                  (Some (pathJoin h outputDir (restoredName tempInfo))))
         processedFiles"

definition restoreNames_amended ::
  "host \<Rightarrow> fs_outcome \<Rightarrow> (jsstring \<rightharpoonup> TempInfo) \<Rightarrow> ProcessedFile list \<Rightarrow> jsstring
   \<Rightarrow> ProcessingResult list" where
  "restoreNames_amended h rename tempFileMap processedFiles outputDir =
     map (\<lambda>file.
            case tempFileMap (hostNormalize h (sourcePath file)) of
              None \<Rightarrow> Failure (js ''unknown'') (js ''No mapping found'')
            | Some tempInfo \<Rightarrow>
                (case rename (destinationPath file) (pathJoin h outputDir (restoredName tempInfo)) of
                   None \<Rightarrow>
                     Success (ti_originalName tempInfo) (restoredName tempInfo)
                       (Some (pathJoin h outputDir (restoredName tempInfo)))
                 | Some msg \<Rightarrow> Failure (ti_originalName tempInfo) msg))
         processedFiles"

subsection \<open>A file with an unsafe name, staged and processed\<close>

text \<open>
  The file \<open>a#1.png\<close>, its mapping entry, the descriptor the codec returns for its
  staged copy, and two file systems: one on which every call resolves, one on which every
  call rejects.
\<close>

definition cx_image :: ImageFile where
  "cx_image = \<lparr> f_name = js ''a#1.png'', f_fullPath = js ''in/a#1.png'',
                f_extension = js ''.png'', f_relativePath = js ''a#1.png'' \<rparr>"

definition cx_info :: TempInfo where
  "cx_info = \<lparr> ti_original = js ''in/a#1.png'', ti_originalName = js ''a#1.png'' \<rparr>"

definition cx_descriptor :: ProcessedFile where
  "cx_descriptor = \<lparr> sourcePath = js ''tmp/a_1.png'', destinationPath = js ''out/a_1.png'' \<rparr>"

definition resolves :: fs_outcome where
  "resolves src dst = None"

definition rejects :: fs_outcome where
  "rejects src dst = Some (js ''EPERM: operation not permitted'')"

section \<open>imageProcessor.js, the imagemin variant: chunk size\<close>

text \<open>
  \<open>getOptimalChunkSize\<close>, on the two readings \<open>os.totalmem()\<close> and \<open>os.freemem()\<close>, both
  byte counts.  The products by 0.3 and 0.5 and the quotient are taken exactly; the clamp
  that follows is the source's \<open>Math.max(10, Math.min(100, _))\<close>.
\<close>

definition estimatedMemoryPerImage :: real where
  "estimatedMemoryPerImage = 10 * 1024 * 1024"

definition clampChunk :: "int \<Rightarrow> int" where
  "clampChunk optimalChunkSize = max 10 (min 100 optimalChunkSize)"

definition getOptimalChunkSize :: "nat \<Rightarrow> nat \<Rightarrow> int" where
  "getOptimalChunkSize totalMemory freeMemory =
     (let availableMemory = min (real totalMemory * (3 / 10)) (real freeMemory * (1 / 2));
          optimalChunkSize = \<lfloor>availableMemory / estimatedMemoryPerImage\<rfloor>
      in clampChunk optimalChunkSize)"

section \<open>imageProcessor.js, the Sharp variant\<close>

subsection \<open>The file system\<close>

text \<open>
  What the run sees of the file system: the directories that exist, and the files in them,
  each a pair of its directory and its name.  \<open>fs_rm\<close> is
  \<open>fs.rm(dir, {recursive: true, force: true})\<close>, \<open>fs_mkdir\<close> is
  \<open>fs.mkdir(dir, {recursive: true})\<close>.  The file system is taken to carry out a removal
  it is asked for; the branches of the source that only log a removal that failed are not
  modelled.
\<close>

record FileSystem =
  dirs :: "jsstring list"
  entries :: "(jsstring \<times> jsstring) list"

definition fs_mkdir :: "jsstring \<Rightarrow> FileSystem \<Rightarrow> FileSystem" where
  "fs_mkdir d fsys = (if d \<in> set (dirs fsys) then fsys else fsys\<lparr>dirs := d # dirs fsys\<rparr>)"

definition fs_rm :: "jsstring \<Rightarrow> FileSystem \<Rightarrow> FileSystem" where
  "fs_rm d fsys =
     \<lparr> dirs = removeAll d (dirs fsys), entries = filter (\<lambda>e. fst e \<noteq> d) (entries fsys) \<rparr>"

definition fs_write :: "jsstring \<Rightarrow> jsstring \<Rightarrow> FileSystem \<Rightarrow> FileSystem" where
  "fs_write d n fsys =
     (if (d, n) \<in> set (entries fsys) then fsys else fsys\<lparr>entries := (d, n) # entries fsys\<rparr>)"

definition fs_unlink :: "jsstring \<Rightarrow> jsstring \<Rightarrow> FileSystem \<Rightarrow> FileSystem" where
  "fs_unlink d n fsys = fsys\<lparr>entries := removeAll (d, n) (entries fsys)\<rparr>"

subsection \<open>The processor\<close>

record ProgressEvent =
  ev_current :: nat
  ev_total :: nat
  ev_percent :: real
  ev_message :: jsstring

text \<open>
  The fields of \<open>ImageProcessor\<close> that the run reads and writes.  \<open>progressCallback\<close> says
  whether a callback was passed; \<open>delivered\<close> lists the events the callback has been called
  with; \<open>disk\<close> is the file system.  The timing statistics and the remaining-time text
  derived from them are left out: the message of an event is the file name.
\<close>

record Processor =
  isCancelled :: bool
  progressCallback :: bool
  delivered :: "ProgressEvent list"
  processedCount :: nat
  currentOutputPath :: "jsstring option"
  tempDirectories :: "jsstring list"
  disk :: FileSystem

definition updateProgress :: "nat \<Rightarrow> nat \<Rightarrow> real \<Rightarrow> jsstring \<Rightarrow> Processor \<Rightarrow> Processor" where
  "updateProgress current totalFiles percent message s =
     (if progressCallback s \<and> \<not> isCancelled s
      then s\<lparr>delivered := delivered s @
               [\<lparr> ev_current = current, ev_total = totalFiles, ev_percent = percent,
                   ev_message = message \<rparr>]\<rparr>
      else s)"

definition performCleanup :: "Processor \<Rightarrow> Processor" where
  "performCleanup s =
     (let s1 = s\<lparr>disk := foldl (\<lambda>fsys tempDirPath. fs_rm tempDirPath fsys) (disk s) (tempDirectories s)\<rparr>
      in case currentOutputPath s1 of
           None \<Rightarrow> s1
         | Some p \<Rightarrow> if processedCount s1 = 0 then s1\<lparr>disk := fs_rm p (disk s1)\<rparr> else s1)"

definition cancel :: "Processor \<Rightarrow> Processor" where
  "cancel s = performCleanup (s\<lparr>isCancelled := True\<rparr>)"

text \<open>\<open>String.prototype.includes\<close>.\<close>

primrec js_includes :: "jsstring \<Rightarrow> jsstring \<Rightarrow> bool" where
  "js_includes [] needle = (needle = [])"
| "js_includes (c # cs) needle = (prefix needle (c # cs) \<or> js_includes cs needle)"

definition needsSanitization :: "jsstring \<Rightarrow> bool" where
  "needsSanitization filename = list_ex problematicChars filename"

subsection \<open>What happens around one file\<close>

text \<open>
  The run is cooperative: \<open>cancel()\<close> and the world act only while the run awaits.  For
  each file the events record says what happens at its awaits: whether the output folder is
  deleted by someone else before \<open>fs.access\<close> looks for it, whether \<open>cancel()\<close> runs during
  that look-up, during the creation of the temp directory or during the codec call, and how
  \<open>fs.mkdir\<close>, \<open>fs.copyFile\<close> and the codec end.  A \<open>cancel()\<close> during the codec call
  stands for one at any await of the processing function; it finds the output file written
  when the codec succeeds.
\<close>

datatype codec_outcome = Converted | CodecError jsstring

record FileEvents =
  folderRemoved :: bool
  cancelDuringAccess :: bool
  mkdirError :: "jsstring option"
  cancelDuringMkdir :: bool
  copyError :: "jsstring option"
  codec :: codec_outcome
  cancelDuringCodec :: bool

text \<open>
  What is fixed for a run, and what happens before its conversion starts: the host, the
  path \<open>createOutputFolder\<close> derives for the output folder (with the time stamp when the
  plain name is taken), the path of the temp directory (\<open>getTempDirName\<close> draws it from
  the clock and a random number), how the scan and the creation of the output folder end,
  and whether \<open>cancel()\<close> runs during the scan, during the measuring of the input sizes
  or during the creation of the output folder.
\<close>

record RunEvents =
  env_host :: host
  env_outputPath :: jsstring
  env_tempDir :: jsstring
  scanError :: "jsstring option"
  cancelDuringScan :: bool
  cancelDuringMeasure :: bool
  createFolderError :: "jsstring option"
  cancelDuringCreate :: bool

definition cancelIf :: "bool \<Rightarrow> Processor \<Rightarrow> Processor" where
  "cancelIf requested s = (if requested then cancel s else s)"

text \<open>The \<open>catch\<close> of \<open>processSharpClean\<close>, for an error that is not a cancellation.\<close>

definition sharpError :: "jsstring \<Rightarrow> jsstring \<Rightarrow> jsstring" where
  "sharpError fileName msg =
     (if js_includes msg (js ''Input file is missing'') then js ''File not found: '' @ fileName
      else if js_includes msg (js ''Input file contains unsupported image format'')
        then js ''Unsupported format in '' @ fileName
      else if js_includes msg (js ''Input image exceeds pixel limit'')
        then js ''Image too large: '' @ fileName
      else js ''Sharp processing failed for '' @ fileName @ js '': '' @ msg)"

text \<open>
  \<open>processSharpClean\<close>.  \<open>Inl\<close> is the message of the error it throws, \<open>Inr\<close> the result it
  returns.
\<close>

definition processSharpClean ::
  "host \<Rightarrow> ImageFile \<Rightarrow> jsstring \<Rightarrow> FileEvents \<Rightarrow> Processor
   \<Rightarrow> (jsstring + ProcessingResult) \<times> Processor" where
  "processSharpClean h imageFile outputPath ev s =
     (if isCancelled s then (Inl (js ''Processing cancelled before Sharp processing''), s)
      else
        let outputBaseName = basename (f_name imageFile) (extname (f_name imageFile));
            outputFileName = outputBaseName @ js ''.webp'';
            outputFilePath = pathJoin h outputPath outputFileName
        in case codec ev of
             CodecError msg \<Rightarrow>
               (let s1 = cancelIf (cancelDuringCodec ev) s
                in if isCancelled s1 \<or> js_includes msg (js ''cancelled'') then (Inl msg, s1)
                   else (Inl (sharpError (f_name imageFile) msg), s1))
           | Converted \<Rightarrow>
               (let s1 = s\<lparr>disk := fs_write outputPath outputFileName (disk s)\<rparr>;
                    s2 = cancelIf (cancelDuringCodec ev) s1
                in if isCancelled s2
                   then (Inl (js ''Processing cancelled after Sharp processing''),
                         s2\<lparr>disk := fs_unlink outputPath outputFileName (disk s2)\<rparr>)
                   else (Inr (Success (f_name imageFile) outputFileName (Some outputFilePath)), s2)))"

text \<open>\<open>processSharpSanitized\<close>: the copy under the sanitized name, the codec on the copy.\<close>

definition processSharpSanitized ::
  "host \<Rightarrow> ImageFile \<Rightarrow> jsstring \<Rightarrow> jsstring \<Rightarrow> FileEvents \<Rightarrow> Processor
   \<Rightarrow> (jsstring + ProcessingResult) \<times> Processor" where
  "processSharpSanitized h imageFile outputPath tempDirPath ev s =
     (if isCancelled s
      then (Inl (js ''Processing cancelled before sanitized Sharp processing''), s)
      else
        let sanitizedName = sanitizeFileName (f_name imageFile);
            originalBaseName = basename (f_name imageFile) (extname (f_name imageFile));
            finalName = originalBaseName @ js ''.webp'';
            finalPath = pathJoin h outputPath finalName;
            wrapped = (\<lambda>msg. js ''Sharp sanitized processing failed for '' @ f_name imageFile
                                @ js '': '' @ msg)
        in case copyError ev of
             Some msg \<Rightarrow>
               (if js_includes msg (js ''cancelled'') then (Inl msg, s) else (Inl (wrapped msg), s))
           | None \<Rightarrow>
               (let s1 = s\<lparr>disk := fs_write tempDirPath sanitizedName (disk s)\<rparr>
                in case codec ev of
                     CodecError msg \<Rightarrow>
                       (let s2 = cancelIf (cancelDuringCodec ev) s1
                        in if isCancelled s2 \<or> js_includes msg (js ''cancelled'') then (Inl msg, s2)
                           else (Inl (wrapped msg), s2))
                   | Converted \<Rightarrow>
                       (let s2 = s1\<lparr>disk := fs_write outputPath finalName (disk s1)\<rparr>;
                            s3 = cancelIf (cancelDuringCodec ev) s2;
                            s4 = s3\<lparr>disk := fs_unlink tempDirPath sanitizedName (disk s3)\<rparr>
                        in if isCancelled s4
                           then (Inl (js ''Processing cancelled after sanitized Sharp processing''),
                                 s4\<lparr>disk := fs_unlink outputPath finalName (disk s4)\<rparr>)
                           else (Inr (Success (f_name imageFile) finalName (Some finalPath)), s4))))"

subsection \<open>\<open>processSharpSequential\<close>\<close>

text \<open>
  The body of the \<open>try\<close> of one iteration: the check that the output folder is still
  there, the temp directory made on first need, the call of the codec.  The result carries
  the flag \<open>tempDirCreated\<close>.
\<close>

definition checkOutputFolder ::
  "jsstring \<Rightarrow> FileEvents \<Rightarrow> Processor \<Rightarrow> (jsstring + unit) \<times> Processor" where
  "checkOutputFolder outputPath ev s =
     (let s1 = (if folderRemoved ev then s\<lparr>disk := fs_rm outputPath (disk s)\<rparr> else s);
          found = (outputPath \<in> set (dirs (disk s1)));
          s2 = cancelIf (cancelDuringAccess ev) s1
      in if found then (Inr (), s2)
         else (Inl (js ''Output folder was removed - processing cancelled''), s2))"

definition ensureTempDir ::
  "jsstring \<Rightarrow> FileEvents \<Rightarrow> bool \<Rightarrow> Processor \<Rightarrow> (jsstring + bool) \<times> Processor" where
  "ensureTempDir tempDirPath ev tempDirCreated s =
     (if tempDirCreated then (Inr True, s)
      else case mkdirError ev of
             Some msg \<Rightarrow> (Inl msg, cancelIf (cancelDuringMkdir ev) s)
           | None \<Rightarrow>
               (let s1 = s\<lparr>disk := fs_mkdir tempDirPath (disk s)\<rparr>;
                    s2 = cancelIf (cancelDuringMkdir ev) s1
                in (Inr True, s2\<lparr>tempDirectories := tempDirectories s2 @ [tempDirPath]\<rparr>)))"

definition tryFile ::
  "RunEvents \<Rightarrow> jsstring \<Rightarrow> ImageFile \<Rightarrow> FileEvents \<Rightarrow> bool \<Rightarrow> Processor
   \<Rightarrow> (jsstring + ProcessingResult) \<times> bool \<times> Processor" where
  "tryFile env outputPath imageFile ev tempDirCreated s =
     (case checkOutputFolder outputPath ev s of
        (Inl msg, s1) \<Rightarrow> (Inl msg, tempDirCreated, s1)
      | (Inr u, s1) \<Rightarrow>
          if needsSanitization (f_name imageFile) then
            (case ensureTempDir (env_tempDir env) ev tempDirCreated s1 of
               (Inl msg, s2) \<Rightarrow> (Inl msg, tempDirCreated, s2)
             | (Inr created, s2) \<Rightarrow>
                 (case processSharpSanitized (env_host env) imageFile outputPath (env_tempDir env) ev s2 of
                    (r, s3) \<Rightarrow> (r, created, s3)))
          else
            (case processSharpClean (env_host env) imageFile outputPath ev s1 of
               (r, s3) \<Rightarrow> (r, tempDirCreated, s3)))"

text \<open>
  The \<open>for\<close> loop.  Its arguments are the files still to come, each with its events, the
  number of files, the results so far and the flag \<open>tempDirCreated\<close>.  A \<open>break\<close> returns
  what there is.
\<close>

fun sequentialLoop ::
  "RunEvents \<Rightarrow> jsstring \<Rightarrow> nat \<Rightarrow> (ImageFile \<times> FileEvents) list \<Rightarrow> ProcessingResult list \<Rightarrow> bool
   \<Rightarrow> Processor \<Rightarrow> ProcessingResult list \<times> bool \<times> Processor" where
  "sequentialLoop env outputPath totalFiles [] results tempDirCreated s = (results, tempDirCreated, s)"
| "sequentialLoop env outputPath totalFiles ((imageFile, ev) # rest) results tempDirCreated s =
     (if isCancelled s then (results, tempDirCreated, s)
      else
        case tryFile env outputPath imageFile ev tempDirCreated s of
          (Inr result, created, s1) \<Rightarrow>
            (let s2 = s1\<lparr>processedCount := processedCount s1 + 1\<rparr>;
                 currentProgress = real (processedCount s2) / real totalFiles * 100;
                 s3 = updateProgress (processedCount s2) totalFiles currentProgress (f_name imageFile) s2
             in sequentialLoop env outputPath totalFiles rest (results @ [result]) created s3)
        | (Inl msg, created, s1) \<Rightarrow>
            if isCancelled s1 \<or> js_includes msg (js ''cancelled'') then (results, created, s1)
            else sequentialLoop env outputPath totalFiles rest
                   (results @ [Failure (f_name imageFile) msg]) created
                   (s1\<lparr>processedCount := processedCount s1 + 1\<rparr>))"

definition processSharpSequential ::
  "RunEvents \<Rightarrow> (ImageFile \<times> FileEvents) list \<Rightarrow> jsstring \<Rightarrow> Processor
   \<Rightarrow> ProcessingResult list \<times> Processor" where
  "processSharpSequential env script outputPath s =
     (case sequentialLoop env outputPath (length script) script [] False s of
        (results, tempDirCreated, s1) \<Rightarrow>
          if tempDirCreated \<and> \<not> isCancelled s1
          then (results,
                s1\<lparr>disk := fs_rm (env_tempDir env) (disk s1),
                   tempDirectories := filter (\<lambda>d. d \<noteq> env_tempDir env) (tempDirectories s1)\<rparr>)
          else (results, s1))"

subsection \<open>\<open>processImages\<close>\<close>

text \<open>
  The outcome of a run: the object \<open>{success: true, processedFiles, totalFiles, outputPath,
  results}\<close> it returns, or the message of the error it throws.  The statistics of the
  returned object are those of \<open>calculateStats\<close> and are not repeated here.
\<close>

datatype RunOutcome =
    Completed nat nat jsstring "ProcessingResult list"
  | Failed jsstring

text \<open>The \<open>catch\<close> of \<open>processImages\<close>.\<close>

definition failRun :: "jsstring \<Rightarrow> Processor \<Rightarrow> RunOutcome \<times> Processor" where
  "failRun msg s =
     (Failed (js ''Image processing failed: '' @ msg),
      if isCancelled s \<or> js_includes msg (js ''cancelled'') then performCleanup s else s)"

text \<open>
  \<open>scanForImages\<close> returns the files found; the walk of the folder tree is not modelled.
  A cancellation during the walk and an error whose message contains \<open>cancelled\<close> end it
  with the cancellation message, any other error with \<open>Failed to scan folder\<close>.
\<close>

definition scanForImages ::
  "RunEvents \<Rightarrow> ImageFile list \<Rightarrow> Processor \<Rightarrow> (jsstring + ImageFile list) \<times> Processor" where
  "scanForImages env found s =
     (let s1 = cancelIf (cancelDuringScan env) s
      in if isCancelled s1 then (Inl (js ''Folder scanning was cancelled by user''), s1)
         else case scanError env of
                Some msg \<Rightarrow>
                  (if js_includes msg (js ''cancelled'')
                   then (Inl (js ''Folder scanning was cancelled by user''), s1)
                   else (Inl (js ''Failed to scan folder: '' @ msg), s1))
              | None \<Rightarrow> (Inr found, s1))"

text \<open>
  \<open>createOutputFolder\<close>: the flag is tested on entry only; a \<open>cancel()\<close> during its awaits
  does not keep it from making the folder and recording it in \<open>currentOutputPath\<close>.
\<close>

definition createOutputFolder :: "RunEvents \<Rightarrow> Processor \<Rightarrow> (jsstring + jsstring) \<times> Processor" where
  "createOutputFolder env s =
     (if isCancelled s then (Inl (js ''Cancelled before creating output folder''), s)
      else
        let s1 = cancelIf (cancelDuringCreate env) s
        in case createFolderError env of
             Some msg \<Rightarrow> (Inl msg, s1)
           | None \<Rightarrow>
               (Inr (env_outputPath env),
                s1\<lparr>disk := fs_mkdir (env_outputPath env) (disk s1),
                   currentOutputPath := Some (env_outputPath env)\<rparr>))"

definition noImagesMessage :: jsstring where
  "noImagesMessage = js ''No supported image files found in the selected folder. Supported formats: JPG, PNG, GIF, SVG, TIFF, BMP''"

text \<open>
  \<open>processImages\<close>, on the files the scan finds, each with its events.  The measuring of
  the input sizes changes nothing here but gives \<open>cancel()\<close> an await to run in.
\<close>

definition processImages ::
  "bool \<Rightarrow> RunEvents \<Rightarrow> (ImageFile \<times> FileEvents) list \<Rightarrow> Processor \<Rightarrow> RunOutcome \<times> Processor" where
  "processImages callback env script s0 =
     (let s = s0\<lparr>progressCallback := callback, isCancelled := False, processedCount := 0,
                 currentOutputPath := None, tempDirectories := []\<rparr>;
          s = updateProgress 0 0 0 (js ''Scanning for images...'') s
      in case scanForImages env (map fst script) s of
           (Inl msg, s) \<Rightarrow> failRun msg s
         | (Inr imageFiles, s) \<Rightarrow>
             if isCancelled s then failRun (js ''Processing cancelled during scan'') s
             else if imageFiles = [] then failRun noImagesMessage s
             else
               let totalFiles = length imageFiles;
                   s = updateProgress 0 totalFiles 0 (js ''Measuring file sizes...'') s;
                   s = cancelIf (cancelDuringMeasure env) s
               in if isCancelled s
                  then failRun (js ''Processing cancelled during input measurement'') s
                  else
                    let s = updateProgress 0 totalFiles 0 (js ''Creating output folder...'') s
                    in case createOutputFolder env s of
                         (Inl msg, s) \<Rightarrow> failRun msg s
                       | (Inr outputPath, s) \<Rightarrow>
                           if isCancelled s
                           then failRun (js ''Processing cancelled during output folder creation'') s
                           else
                             (case processSharpSequential env script outputPath s of
                                (results, s) \<Rightarrow>
                                  if isCancelled s
                                  then failRun (js ''Processing was cancelled by user'') (performCleanup s)
                                  else
                                    let successfulFiles = length (filter isSuccess results);
                                        s = updateProgress successfulFiles totalFiles 100
                                              (js ''Calculating compression statistics...'') s
                                    in (Completed successfulFiles totalFiles outputPath results, s)))"

section \<open>imageProcessor.js, the imagemin variant: progress and cancellation\<close>

text \<open>
  In this variant \<open>cancel()\<close> sets the flag and does nothing else, and \<open>updateProgress\<close>
  calls the callback whenever there is one.
\<close>

record ImageminProcessor =
  im_isCancelled :: bool
  im_progressCallback :: bool
  im_delivered :: "ProgressEvent list"

definition im_cancel :: "ImageminProcessor \<Rightarrow> ImageminProcessor" where
  "im_cancel s = s\<lparr>im_isCancelled := True\<rparr>"

definition im_updateProgress ::
  "nat \<Rightarrow> nat \<Rightarrow> real \<Rightarrow> jsstring \<Rightarrow> ImageminProcessor \<Rightarrow> ImageminProcessor" where
  "im_updateProgress current totalFiles percent message s =
     (if im_progressCallback s
      then s\<lparr>im_delivered := im_delivered s @
               [\<lparr> ev_current = current, ev_total = totalFiles, ev_percent = percent,
                   ev_message = message \<rparr>]\<rparr>
      else s)"

section \<open>Example runs\<close>

text \<open>
  A run with nothing happening around a file: \<open>quiet\<close>.  A run on a POSIX host whose
  output folder is \<open>in_compressed\<close> and whose temp directory is \<open>temp_1\<close>, with no
  cancellation before the conversion starts: \<open>calm\<close>.  A processor before its first run, on
  a disk holding the input folder: \<open>fresh\<close>.  The same processor when the conversion starts:
  \<open>converting\<close>.
\<close>

definition quiet :: FileEvents where
  "quiet = \<lparr> folderRemoved = False, cancelDuringAccess = False, mkdirError = None,
             cancelDuringMkdir = False, copyError = None, codec = Converted,
             cancelDuringCodec = False \<rparr>"

definition imageNamed :: "string \<Rightarrow> ImageFile" where
  "imageNamed n = \<lparr> f_name = js n, f_fullPath = js ''in/'' @ js n, f_extension = js ''.jpg'',
               f_relativePath = js n \<rparr>"

definition calm :: RunEvents where
  "calm = \<lparr> env_host = Posix, env_outputPath = js ''in_compressed'', env_tempDir = js ''temp_1'',
            scanError = None, cancelDuringScan = False, cancelDuringMeasure = False,
            createFolderError = None, cancelDuringCreate = False \<rparr>"

definition fresh :: Processor where
  "fresh = \<lparr> isCancelled = False, progressCallback = False, delivered = [], processedCount = 0,
             currentOutputPath = None, tempDirectories = [],
             disk = \<lparr> dirs = [js ''in''], entries = [] \<rparr> \<rparr>"

definition converting :: Processor where
  "converting = \<lparr> isCancelled = False, progressCallback = False, delivered = [],
                  processedCount = 0, currentOutputPath = Some (js ''in_compressed''),
                  tempDirectories = [],
                  disk = \<lparr> dirs = [js ''in_compressed'', js ''in''], entries = [] \<rparr> \<rparr>"

definition unsupported :: jsstring where
  "unsupported = js ''Input file contains unsupported image format''"

definition im_running :: ImageminProcessor where
  "im_running = \<lparr> im_isCancelled = False, im_progressCallback = True, im_delivered = [] \<rparr>"

section \<open>Predicates on the state of a run\<close>

text \<open>
  \<open>cleanedOutput\<close> is the set of output folders \<open>performCleanup\<close> removes: the current one
  when no file has been counted.  \<open>registered\<close> says that the two directories of a run are
  on the disk only if the processor knows them.  \<open>outputKept\<close> says that the output folder
  is on the disk unless the run was cancelled before a file was counted.  \<open>noOutputs\<close> says
  that no file lies in the output folder.
\<close>

definition cleanedOutput :: "Processor \<Rightarrow> jsstring set" where
  "cleanedOutput s =
     (case currentOutputPath s of
        None \<Rightarrow> {}
      | Some p \<Rightarrow> if processedCount s = 0 then {p} else {})"

definition registered :: "RunEvents \<Rightarrow> Processor \<Rightarrow> bool" where
  "registered env s \<longleftrightarrow>
     (if env_outputPath env \<in> set (dirs (disk s))
      then currentOutputPath s = Some (env_outputPath env) else True)
     \<and> (if env_tempDir env \<in> set (dirs (disk s))
        then env_tempDir env \<in> set (tempDirectories s) else True)"

definition outputKept :: "RunEvents \<Rightarrow> jsstring \<Rightarrow> Processor \<Rightarrow> bool" where
  "outputKept env outputPath s \<longleftrightarrow>
     set (tempDirectories s) \<subseteq> {env_tempDir env}
     \<and> currentOutputPath s = Some outputPath
     \<and> (outputPath \<in> set (dirs (disk s)) \<or> (isCancelled s \<and> processedCount s = 0))"

definition noOutputs :: "jsstring \<Rightarrow> Processor \<Rightarrow> bool" where
  "noOutputs outputPath s \<longleftrightarrow> list_all (\<lambda>e. fst e \<noteq> outputPath) (entries (disk s))"

text \<open>
  \<open>undisturbed\<close> describes a file around which nobody cancels and nobody removes the output
  folder, and for which no error that can be thrown has a message containing
  \<open>cancelled\<close>: the messages of \<open>fs.mkdir\<close>, \<open>fs.copyFile\<close> and the codec, and the
  messages the two processing functions make of them.
\<close>

fun resultOriginal :: "ProcessingResult \<Rightarrow> jsstring" where
  "resultOriginal (Success original compressed finalPath) = original"
| "resultOriginal (Failure original err) = original"

definition thrownMessages :: "ImageFile \<Rightarrow> FileEvents \<Rightarrow> jsstring list" where
  "thrownMessages imageFile ev =
     (case mkdirError ev of None \<Rightarrow> [] | Some m \<Rightarrow> [m])
     @ (case copyError ev of
          None \<Rightarrow> []
        | Some m \<Rightarrow>
            [m, js ''Sharp sanitized processing failed for '' @ f_name imageFile @ js '': '' @ m])
     @ (case codec ev of
          Converted \<Rightarrow> []
        | CodecError m \<Rightarrow>
            [m, sharpError (f_name imageFile) m,
             js ''Sharp sanitized processing failed for '' @ f_name imageFile @ js '': '' @ m])"

definition undisturbed :: "ImageFile \<times> FileEvents \<Rightarrow> bool" where
  "undisturbed x \<longleftrightarrow>
     \<not> folderRemoved (snd x) \<and> \<not> cancelDuringAccess (snd x) \<and> \<not> cancelDuringMkdir (snd x)
     \<and> \<not> cancelDuringCodec (snd x)
     \<and> list_all (\<lambda>m. \<not> js_includes m (js ''cancelled'')) (thrownMessages (fst x) (snd x))"

section \<open>Properties of strings\<close>

lemma js_eq_iff: "js a = js b \<longleftrightarrow> a = b"
proof -
  have "inj (of_char :: char \<Rightarrow> nat)" by (simp add: inj_def)
  then show ?thesis by (simp add: js_def inj_map_eq_map)
qed

section \<open>Properties of the size statistics\<close>

text \<open>
  C4, as the claim states it, fails: \<open>compressionRatio\<close> is a percentage.  For an input of
  100 bytes compressed to 50 the ratio returned is 50, not \<open>savings / inputSize = 1/2\<close>.
\<close>

theorem calculateStats_ratio_counterexample:
  "calculateStats (snapshots 100 1 50 1) =
     Inr \<lparr> inputSize = 100, outputSize = 50, savings = 50, compressionRatio = 50,
           inputFiles = 1, outputFiles = 1, failedFiles = 0 \<rparr>
   \<and> (50::real) \<noteq> real_of_int 50 / real_of_int 100"
  by (simp add: calculateStats_def snapshots_def)

text \<open>
  C4, amended: for every pair of measured snapshots \<open>calculateStats\<close> returns statistics with
  \<open>savings = inputSize - outputSize\<close>, \<open>failedFiles = inputFiles - outputFiles\<close> and
  \<open>compressionRatio = savings / inputSize * 100\<close>, the ratio being 0 when \<open>inputSize\<close> is 0.
\<close>

theorem calculateStats_amended:
  assumes "inputStats a = Some i" and "outputStats a = Some out"
  shows "\<exists>st. calculateStats a = Inr st
          \<and> inputSize st = in_totalSize i \<and> outputSize st = out_totalSize out
          \<and> inputFiles st = in_totalFiles i \<and> outputFiles st = out_successfulFiles out
          \<and> savings st = inputSize st - outputSize st
          \<and> failedFiles st = inputFiles st - outputFiles st
          \<and> (0 < inputSize st \<longrightarrow>
               compressionRatio st = real_of_int (savings st) / real_of_int (inputSize st) * 100)
          \<and> (inputSize st = 0 \<longrightarrow> compressionRatio st = 0)"
  using assms by (simp add: calculateStats_def Let_def)

theorem calculateStats_amended_witness:
  "calculateStats (snapshots 0 2 0 1) =
     Inr \<lparr> inputSize = 0, outputSize = 0, savings = 0, compressionRatio = 0,
           inputFiles = 2, outputFiles = 1, failedFiles = 1 \<rparr>"
  using calculateStats_amended [of "snapshots 0 2 0 1"
      "\<lparr> in_files = [], in_totalSize = 0, in_totalFiles = 2 \<rparr>"
      "\<lparr> out_files = [], out_totalSize = 0, out_totalFiles = 2, out_successfulFiles = 1 \<rparr>"]
  by (auto simp add: snapshots_def)

section \<open>Properties of the sanitizer\<close>

subsection \<open>Extension and base name\<close>

lemma afterLastDot_split:
  assumes "dot \<notin> set zs"
  shows "afterLastDot (ys @ dot # zs) = zs"
proof -
  have "takeWhile (\<lambda>c. c \<noteq> dot) (rev zs @ dot # rev ys)
          = rev zs @ takeWhile (\<lambda>c. c \<noteq> dot) (dot # rev ys)"
    by (rule takeWhile_append2) (use assms in auto)
  then show ?thesis by (simp add: afterLastDot_def)
qed

lemma extname_no_dot: "dot \<notin> set p \<Longrightarrow> extname p = []"
  by (simp add: extname_def)

lemma two_dots_split:
  "ys @ d # zs = [d, d] \<longleftrightarrow> (ys = [] \<and> zs = [d]) \<or> (ys = [d] \<and> zs = [])"
  by (cases ys; cases "tl ys") auto

lemma extname_split:
  assumes "dot \<notin> set zs"
  shows "extname (ys @ dot # zs) = (if ys = [] \<or> (ys = [dot] \<and> zs = []) then [] else dot # zs)"
proof -
  have a: "afterLastDot (ys @ dot # zs) = zs"
    using assms by (rule afterLastDot_split)
  have b: "ys @ dot # zs = [dot, dot] \<longleftrightarrow> ys = [dot] \<and> zs = []"
    using assms by (auto simp: two_dots_split)
  show ?thesis
    unfolding extname_def a b by auto
qed

lemma basename_empty: "basename p [] = p"
  by (simp add: basename_def)

lemma basename_strip: "b \<noteq> [] \<Longrightarrow> basename (b @ e) e = b"
  by (auto simp: basename_def)

lemma sanitizeFileName_no_ext: "extname name = [] \<Longrightarrow> sanitizeFileName name = sanitizeBase name"
  by (simp add: sanitizeFileName_def basename_empty)

lemma sanitizeFileName_split:
  assumes "dot \<notin> set zs" and "ys \<noteq> []" and "\<not> (ys = [dot] \<and> zs = [])"
  shows "sanitizeFileName (ys @ dot # zs) = sanitizeBase ys @ dot # zs"
proof -
  have e: "extname (ys @ dot # zs) = dot # zs"
    using assms by (simp add: extname_split)
  have b: "basename (ys @ dot # zs) (dot # zs) = ys"
    using assms(2) by (rule basename_strip)
  show ?thesis by (simp add: sanitizeFileName_def e b)
qed

lemma not_problematic_underscore: "\<not> problematicChars underscore"
  by (simp add: problematicChars_def isSafeChar_def underscore_def)

lemma not_whitespace_underscore: "\<not> isWhitespace underscore"
  by (simp add: isWhitespace_def underscore_def)

lemma not_whitespace_dot: "\<not> isWhitespace dot"
  by (simp add: isWhitespace_def dot_def)

lemma not_problematic_dot: "\<not> problematicChars dot"
  by (simp add: problematicChars_def isSafeChar_def dot_def)

lemma dot_not_underscore: "dot \<noteq> underscore"
  by (simp add: dot_def underscore_def)

lemma whitespace_safe: "isWhitespace c \<Longrightarrow> \<not> problematicChars c"
  by (simp add: problematicChars_def isSafeChar_def)

lemma replaceProblematicChars_set:
  "c \<in> set (replaceProblematicChars s) \<Longrightarrow> \<not> problematicChars c \<and> (c = underscore \<or> c \<in> set s)"
  by (auto simp: replaceProblematicChars_def not_problematic_underscore)

lemma replaceProblematicChars_id:
  "\<forall>c\<in>set s. \<not> problematicChars c \<Longrightarrow> replaceProblematicChars s = s"
  by (simp add: replaceProblematicChars_def map_idI)

lemma replaceMultipleSpaces_set:
  "c \<in> set (replaceMultipleSpaces s) \<Longrightarrow> \<not> isWhitespace c \<and> (c = underscore \<or> c \<in> set s)"
proof (induction s rule: replaceMultipleSpaces.induct)
  case 1
  then show ?case by simp
next
  case (2 d ds)
  then show ?case
    by (auto simp: not_whitespace_underscore split: if_splits dest: set_dropWhileD)
qed

lemma replaceMultipleSpaces_id:
  "\<forall>c\<in>set s. \<not> isWhitespace c \<Longrightarrow> replaceMultipleSpaces s = s"
  by (induction s) auto

lemma trimUnderscores_set:
  assumes "c \<in> set (trimUnderscores s)"
  shows "c \<in> set s"
proof -
  let ?P = "\<lambda>c. c = underscore"
  from assms have "c \<in> set (dropWhile ?P (rev (dropWhile ?P s)))"
    by (simp add: trimUnderscores_def)
  then have "c \<in> set (rev (dropWhile ?P s))" by (rule set_dropWhileD)
  then have "c \<in> set (dropWhile ?P s)" by simp
  then show ?thesis by (rule set_dropWhileD)
qed

lemma trimUnderscores_length: "length (trimUnderscores s) \<le> length s"
proof -
  have "length (dropWhile (\<lambda>c. c = underscore) (rev (dropWhile (\<lambda>c. c = underscore) s)))
          \<le> length (rev (dropWhile (\<lambda>c. c = underscore) s))"
    by (rule length_dropWhile_le)
  also have "\<dots> \<le> length s"
    by (simp add: length_dropWhile_le)
  finally show ?thesis by (simp add: trimUnderscores_def)
qed

lemma trimUnderscores_idem: "trimUnderscores (trimUnderscores s) = trimUnderscores s"
proof -
  define P where "P = (\<lambda>c. c = underscore)"
  define y where "y = dropWhile P s"
  define z where "z = rev (dropWhile P (rev y))"
  have yz: "y = z @ rev (takeWhile P (rev y))"
  proof -
    have "rev (rev y) = rev (takeWhile P (rev y) @ dropWhile P (rev y))"
      by (simp only: takeWhile_dropWhile_id)
    then show ?thesis by (simp only: rev_rev_ident rev_append z_def)
  qed
  have dz: "dropWhile P z = z"
  proof (cases "z = []")
    case True
    then show ?thesis by simp
  next
    case False
    then have "hd z = hd y" using yz by (metis hd_append2)
    moreover have "y \<noteq> []" using False yz by auto
    then have "\<not> P (hd y)" unfolding y_def by (rule hd_dropWhile)
    ultimately show ?thesis using False by (cases z) auto
  qed
  have "trimUnderscores z = rev (dropWhile P (rev (dropWhile P z)))"
    by (simp add: trimUnderscores_def P_def)
  also have "\<dots> = rev (dropWhile P (rev z))" by (simp add: dz)
  also have "\<dots> = rev (dropWhile P (dropWhile P (rev y)))" by (simp add: z_def)
  also have "\<dots> = z" by (simp add: z_def)
  finally have "trimUnderscores z = z" .
  moreover have "z = trimUnderscores s" by (simp add: z_def y_def trimUnderscores_def P_def)
  ultimately show ?thesis by simp
qed

lemma fallbackName_all:
  "list_all (\<lambda>c. \<not> problematicChars c \<and> \<not> isWhitespace c \<and> c \<noteq> dot) fallbackName"
  by (simp add: fallbackName_def js_def problematicChars_def isSafeChar_def isWordChar_def
        isWhitespace_def dot_def)

lemma fallbackName_chars:
  "c \<in> set fallbackName \<Longrightarrow> \<not> problematicChars c \<and> \<not> isWhitespace c \<and> c \<noteq> dot"
  using fallbackName_all by (simp add: list_all_iff)

lemma fallbackName_trim: "trimUnderscores fallbackName = fallbackName"
  by (simp add: fallbackName_def js_def trimUnderscores_def underscore_def)

lemma fallbackName_length: "length fallbackName = 14"
  by (simp add: fallbackName_def js_def)

lemma sanitizeBase_set:
  assumes "c \<in> set (sanitizeBase b)"
  shows "c \<in> set fallbackName \<or> c = underscore \<or> c \<in> set b"
proof (cases "c \<in> set fallbackName")
  case True
  then show ?thesis by simp
next
  case False
  with assms have "c \<in> set (trimUnderscores (take 100 (replaceMultipleSpaces (replaceProblematicChars b))))"
    by (auto simp: sanitizeBase_def substring0_def Let_def split: if_splits)
  then have "c \<in> set (take 100 (replaceMultipleSpaces (replaceProblematicChars b)))"
    by (rule trimUnderscores_set)
  then have "c \<in> set (replaceMultipleSpaces (replaceProblematicChars b))"
    by (rule in_set_takeD)
  then have "c = underscore \<or> c \<in> set (replaceProblematicChars b)"
    using replaceMultipleSpaces_set by blast
  then show ?thesis
    using replaceProblematicChars_set by blast
qed

lemma sanitizeBase_chars:
  assumes "c \<in> set (sanitizeBase b)"
  shows "\<not> problematicChars c \<and> \<not> isWhitespace c"
proof (cases "c \<in> set fallbackName")
  case True
  then show ?thesis using fallbackName_chars by blast
next
  case False
  with assms have "c \<in> set (trimUnderscores (take 100 (replaceMultipleSpaces (replaceProblematicChars b))))"
    by (auto simp: sanitizeBase_def substring0_def Let_def split: if_splits)
  then have "c \<in> set (take 100 (replaceMultipleSpaces (replaceProblematicChars b)))"
    by (rule trimUnderscores_set)
  then have m: "c \<in> set (replaceMultipleSpaces (replaceProblematicChars b))"
    by (rule in_set_takeD)
  then have "\<not> isWhitespace c" and "c = underscore \<or> c \<in> set (replaceProblematicChars b)"
    using replaceMultipleSpaces_set by blast+
  then show ?thesis
    using replaceProblematicChars_set not_problematic_underscore by blast
qed

lemma sanitizeBase_nonempty: "sanitizeBase b \<noteq> []"
  by (simp add: sanitizeBase_def Let_def fallbackName_def js_def)

lemma sanitizeBase_length: "length (sanitizeBase b) \<le> 100"
proof -
  have "length (trimUnderscores (take 100 (replaceMultipleSpaces (replaceProblematicChars b)))) \<le> 100"
    using trimUnderscores_length [of "take 100 (replaceMultipleSpaces (replaceProblematicChars b))"]
    by simp
  then show ?thesis
    by (simp add: sanitizeBase_def substring0_def Let_def fallbackName_length)
qed

lemma sanitizeBase_trim: "trimUnderscores (sanitizeBase b) = sanitizeBase b"
  by (simp add: sanitizeBase_def Let_def fallbackName_trim trimUnderscores_idem)

lemma sanitizeBase_idem: "sanitizeBase (sanitizeBase b) = sanitizeBase b"
proof -
  let ?S = "sanitizeBase b"
  have 1: "replaceProblematicChars ?S = ?S"
    by (rule replaceProblematicChars_id) (use sanitizeBase_chars in blast)
  have 2: "replaceMultipleSpaces ?S = ?S"
    by (rule replaceMultipleSpaces_id) (use sanitizeBase_chars in blast)
  have 3: "take 100 ?S = ?S"
    using sanitizeBase_length [of b] by simp
  have "sanitizeBase ?S = (if trimUnderscores ?S = [] then fallbackName else trimUnderscores ?S)"
    unfolding sanitizeBase_def [of ?S] substring0_def Let_def 1 2 3 ..
  then show ?thesis
    by (simp add: sanitizeBase_trim sanitizeBase_nonempty)
qed

lemma sanitizeBase_no_dot:
  assumes "dot \<notin> set b"
  shows "dot \<notin> set (sanitizeBase b)"
  using assms sanitizeBase_set [of dot b] fallbackName_chars [of dot] dot_not_underscore
  by blast

lemma trimUnderscores_leading_dot:
  "trimUnderscores (dot # z) = dot # rev (dropWhile (\<lambda>c. c = underscore) (rev z))"
  by (simp add: trimUnderscores_def dot_not_underscore dropWhile_append)

lemma sanitizeBase_leading_dot:
  assumes "dot \<notin> set r"
  shows "\<exists>r'. sanitizeBase (dot # r) = dot # r' \<and> dot \<notin> set r'"
proof -
  obtain r' where r': "sanitizeBase (dot # r) = dot # r'"
    by (auto simp: sanitizeBase_def substring0_def Let_def replaceProblematicChars_def
          not_problematic_dot not_whitespace_dot trimUnderscores_leading_dot)
  have "dot \<notin> set r'"
  proof
    assume d: "dot \<in> set r'"
    define t where "t = replaceMultipleSpaces (replaceProblematicChars r)"
    have "sanitizeBase (dot # r) = dot # rev (dropWhile (\<lambda>c. c = underscore) (rev (take 99 t)))"
      by (simp add: sanitizeBase_def substring0_def Let_def replaceProblematicChars_def
          not_problematic_dot not_whitespace_dot trimUnderscores_leading_dot t_def)
    with r' have "r' = rev (dropWhile (\<lambda>c. c = underscore) (rev (take 99 t)))" by simp
    with d have "dot \<in> set (dropWhile (\<lambda>c. c = underscore) (rev (take 99 t)))" by simp
    then have "dot \<in> set (rev (take 99 t))" by (rule set_dropWhileD)
    then have "dot \<in> set (take 99 t)" by simp
    then have "dot \<in> set t" by (rule in_set_takeD)
    then have "dot = underscore \<or> dot \<in> set (replaceProblematicChars r)"
      unfolding t_def using replaceMultipleSpaces_set by blast
    then have "dot \<in> set r"
      using replaceProblematicChars_set dot_not_underscore by blast
    with assms show False by simp
  qed
  with r' show ?thesis by blast
qed

lemma sanitizeBase_two_dots: "sanitizeBase [dot, dot] = [dot, dot]"
  by (simp add: sanitizeBase_def substring0_def Let_def replaceProblematicChars_def
        not_problematic_dot not_whitespace_dot trimUnderscores_def dot_not_underscore)

lemma extname_sanitizeBase:
  assumes "extname name = []"
  shows "extname (sanitizeBase name) = []"
proof (cases "dot \<in> set name")
  case False
  then show ?thesis by (simp add: sanitizeBase_no_dot extname_no_dot)
next
  case True
  then obtain ys zs where n: "name = ys @ dot # zs" and z: "dot \<notin> set zs"
    using split_list_last by metis
  with assms have c: "ys = [] \<or> (ys = [dot] \<and> zs = [])"
    by (auto simp: extname_split split: if_splits)
  show ?thesis
  proof (cases "ys = []")
    case True
    then obtain r' where "sanitizeBase name = dot # r'" and "dot \<notin> set r'"
      using sanitizeBase_leading_dot [OF z] n by auto
    then show ?thesis using extname_split [of r' "[]"] by simp
  next
    case False
    with c n have "name = [dot, dot]" by simp
    then have "sanitizeBase name = [dot, dot]" by (simp add: sanitizeBase_two_dots)
    then show ?thesis using extname_split [of "[]" "[dot]"] by simp
  qed
qed

lemma sanitizeFileName_two_dots: "sanitizeFileName [dot, dot] = [dot, dot]"
proof -
  have "extname [dot, dot] = []" using extname_split [of "[]" "[dot]"] by simp
  then show ?thesis by (simp add: sanitizeFileName_no_ext sanitizeBase_two_dots)
qed

lemma sanitizeFileName_idem: "sanitizeFileName (sanitizeFileName name) = sanitizeFileName name"
proof (cases "extname name = []")
  case True
  then have r: "sanitizeFileName name = sanitizeBase name"
    by (rule sanitizeFileName_no_ext)
  have "extname (sanitizeBase name) = []"
    using True by (rule extname_sanitizeBase)
  then have "sanitizeFileName (sanitizeBase name) = sanitizeBase (sanitizeBase name)"
    by (rule sanitizeFileName_no_ext)
  with r show ?thesis by (simp add: sanitizeBase_idem)
next
  case False
  then have "dot \<in> set name" using extname_no_dot by blast
  then obtain ys zs where n: "name = ys @ dot # zs" and z: "dot \<notin> set zs"
    using split_list_last by metis
  with False have y: "ys \<noteq> []" and yz: "\<not> (ys = [dot] \<and> zs = [])"
    by (auto simp: extname_split split: if_splits)
  have r: "sanitizeFileName name = sanitizeBase ys @ dot # zs"
    unfolding n using z y yz by (rule sanitizeFileName_split)
  show ?thesis
  proof (cases "sanitizeBase ys = [dot] \<and> zs = []")
    case True
    with r have "sanitizeFileName name = [dot, dot]" by simp
    then show ?thesis by (simp add: sanitizeFileName_two_dots)
  next
    case False
    have "sanitizeFileName (sanitizeBase ys @ dot # zs) = sanitizeBase (sanitizeBase ys) @ dot # zs"
      using z sanitizeBase_nonempty False by (rule sanitizeFileName_split)
    with r show ?thesis by (simp add: sanitizeBase_idem)
  qed
qed

subsection \<open>The sanitizer against its specification\<close>

lemma unsafeToUnderscore_eq: "unsafeToUnderscore s = replaceProblematicChars s"
  by (simp add: unsafeToUnderscore_def replaceProblematicChars_def problematicChars_def)

lemma dropWhile_not_head: "cs \<noteq> [] \<Longrightarrow> \<not> P (hd cs) \<Longrightarrow> dropWhile P cs = cs"
  by (cases cs) auto

lemma replaceMultipleSpaces_spec:
  "replaceMultipleSpaces s = whitespaceToUnderscore (collapseRepeatedWhitespace s)"
proof (induction s rule: collapseRepeatedWhitespace.induct)
  case 1
  then show ?case by (simp add: whitespaceToUnderscore_def)
next
  case (2 c cs)
  show ?case
  proof (cases "isWhitespace c")
    case False
    with 2 show ?thesis by (simp add: whitespaceToUnderscore_def)
  next
    case True
    show ?thesis
    proof (cases "cs \<noteq> [] \<and> isWhitespace (hd cs)")
      case True
      with \<open>isWhitespace c\<close> 2 show ?thesis by (simp add: whitespaceToUnderscore_def)
    next
      case False
      then have "dropWhile isWhitespace cs = cs"
        by (cases cs) auto
      with False \<open>isWhitespace c\<close> 2 show ?thesis
        by (auto simp: whitespaceToUnderscore_def)
    qed
  qed
qed

lemma basename_withoutExtension: "basename p (extname p) = withoutExtension p"
proof (cases "extname p = []")
  case True
  then show ?thesis by (simp add: basename_empty withoutExtension_def)
next
  case False
  then have "dot \<in> set p" using extname_no_dot by blast
  then obtain ys zs where n: "p = ys @ dot # zs" and z: "dot \<notin> set zs"
    using split_list_last by metis
  with False have e: "extname (ys @ dot # zs) = dot # zs" and y: "ys \<noteq> []"
    by (auto simp: extname_split split: if_splits)
  have "basename (ys @ dot # zs) (dot # zs) = ys"
    using y by (rule basename_strip)
  then show ?thesis unfolding n by (simp add: e withoutExtension_def)
qed

lemma name_split: "p = withoutExtension p @ extname p"
proof (cases "extname p = []")
  case True
  then show ?thesis by (simp add: withoutExtension_def)
next
  case False
  then have "dot \<in> set p" using extname_no_dot by blast
  then obtain ys zs where n: "p = ys @ dot # zs" and z: "dot \<notin> set zs"
    using split_list_last by metis
  with False have e: "extname (ys @ dot # zs) = dot # zs"
    by (auto simp: extname_split split: if_splits)
  show ?thesis unfolding n by (simp add: e withoutExtension_def)
qed

lemma sanitizeFileName_refines: "sanitizeFileName p = sanitize_amended p"
  by (simp add: sanitizeFileName_def sanitize_amended_def sanitizeBase_def substring0_def Let_def
      basename_withoutExtension replaceMultipleSpaces_spec unsafeToUnderscore_eq orFallback_def
      fallbackName_def)

text \<open>
  C5, amended: for every file name (a single path component) \<open>sanitizeFileName\<close> strips
  the extension, replaces every character outside the safe set by \<open>_\<close>, replaces every
  run of white space, of one character or of several, by a single \<open>_\<close>, truncates
  the base to 100 code units, trims leading and trailing \<open>_\<close>, puts
  \<open>sanitized_file\<close> for an empty result and reattaches the extension unchanged.
\<close>

theorem sanitizeFileName_amended:
  assumes "pathComponent p"
  shows "p = withoutExtension p @ extname p \<and> sanitizeFileName p = sanitize_amended p"
  using name_split [of p] sanitizeFileName_refines [of p] by simp

lemmas char_defs = underscore_def dot_def slash_def backslash_def isWordChar_def isWhitespace_def
  isSafeChar_def problematicChars_def

lemma ex_ext: "extname (js ''a b.png'') = js ''.png''"
  by (simp add: js_def extname_def afterLastDot_def dot_def)

lemma ex_base: "withoutExtension (js ''a b.png'') = js ''a b''"
  by (simp add: withoutExtension_def ex_ext) (simp add: js_def)

lemma ex_code: "sanitizeFileName (js ''a b.png'') = js ''a_b.png''"
proof -
  have b: "basename (js ''a b.png'') (js ''.png'') = js ''a b''"
    by (simp add: js_def basename_def)
  have s: "sanitizeBase (js ''a b'') = js ''a_b''"
    by (simp add: js_def sanitizeBase_def replaceProblematicChars_def substring0_def
        trimUnderscores_def fallbackName_def char_defs)
  show ?thesis
    by (simp add: sanitizeFileName_def ex_ext b s) (simp add: js_def)
qed

lemma ex_spec: "sanitize_spec (js ''a b.png'') = js ''a b.png''"
proof -
  have "orFallback (trimUnderscores (take 100 (collapseRepeatedWhitespace (unsafeToUnderscore (js ''a b'')))))
          = js ''a b''"
    by (simp add: js_def unsafeToUnderscore_def orFallback_def trimUnderscores_def char_defs)
  then show ?thesis
    by (simp add: sanitize_spec_def ex_ext ex_base) (simp add: js_def)
qed

text \<open>
  C5 as the claim states it fails on a name with a single space: the space of \<open>a b.png\<close>
  is not kept, the result is \<open>a_b.png\<close>.
\<close>

theorem sanitize_single_space_counterexample:
  "sanitizeFileName (js ''a b.png'') = js ''a_b.png''
   \<and> sanitize_spec (js ''a b.png'') = js ''a b.png''
   \<and> sanitizeFileName (js ''a b.png'') \<noteq> sanitize_spec (js ''a b.png'')"
  by (simp add: ex_code ex_spec) (simp add: js_def)

theorem sanitizeFileName_amended_witness:
  "pathComponent (js ''a b.png'')
   \<and> js ''a b.png'' = js ''a b'' @ js ''.png''
   \<and> sanitize_amended (js ''a b.png'') = js ''a_b.png''"
proof -
  have pc: "pathComponent (js ''a b.png'')"
    by (simp add: pathComponent_def drivePrefix_def js_def slash_def backslash_def)
  have 1: "js ''a b.png'' = js ''a b'' @ js ''.png''"
    by (simp add: js_def)
  have 2: "sanitize_amended (js ''a b.png'') = js ''a_b.png''"
    using sanitizeFileName_amended [OF pc] ex_code by simp
  from pc 1 2 show ?thesis by blast
qed

subsection \<open>Safe names\<close>

text \<open>
  A name of safe characters is a single path component, and sanitizing it gives a name of
  safe characters again.
\<close>

lemma safe_not_separator:
  "isSafeChar c \<Longrightarrow> c \<noteq> slash \<and> c \<noteq> backslash \<and> c \<noteq> 58"
  by (auto simp: isSafeChar_def isWordChar_def isWhitespace_def slash_def backslash_def)

lemma safe_pathComponent:
  assumes "list_all isSafeChar p"
  shows "pathComponent p"
proof -
  have s: "\<forall>c\<in>set p. c \<noteq> slash \<and> c \<noteq> backslash \<and> c \<noteq> 58"
    using assms safe_not_separator by (auto simp: list_all_iff)
  then have "\<not> drivePrefix p"
    by (auto simp: drivePrefix_def split: list.splits)
  with s show ?thesis by (auto simp: pathComponent_def)
qed

lemma not_problematic_safe: "\<not> problematicChars c \<longleftrightarrow> isSafeChar c"
  by (simp add: problematicChars_def)

lemma extname_set: "set (extname p) \<subseteq> set p"
proof (cases "extname p = []")
  case True
  then show ?thesis by simp
next
  case False
  have "p = withoutExtension p @ extname p" by (rule name_split)
  then have "set p = set (withoutExtension p) \<union> set (extname p)"
    by (metis set_append)
  then show ?thesis by blast
qed

lemma sanitizeFileName_safe:
  assumes "list_all isSafeChar p"
  shows "list_all isSafeChar (sanitizeFileName p)"
proof -
  have b: "\<forall>c\<in>set (sanitizeBase (basename p (extname p))). isSafeChar c"
    using sanitizeBase_chars not_problematic_safe by blast
  have e: "\<forall>c\<in>set (extname p). isSafeChar c"
    using assms extname_set [of p] by (auto simp: list_all_iff)
  from b e show ?thesis
    by (auto simp: sanitizeFileName_def Let_def list_all_iff)
qed


text \<open>
  C8: on a name whose characters are all in the safe set, sanitizing twice gives what
  sanitizing once gives.
\<close>

theorem sanitize_idempotent_on_safe_names:
  assumes "list_all isSafeChar p"
  shows "sanitizeFileName (sanitizeFileName p) = sanitizeFileName p"
  by (rule sanitizeFileName_idem)

theorem sanitize_idempotent_witness:
  "list_all isSafeChar (js ''a b.png'')
   \<and> sanitizeFileName (js ''a b.png'') = js ''a_b.png''
   \<and> sanitizeFileName (js ''a_b.png'') = js ''a_b.png''"
proof -
  have safe: "list_all isSafeChar (js ''a b.png'')"
    by (simp add: js_def isSafeChar_def isWordChar_def isWhitespace_def)
  from sanitize_idempotent_on_safe_names [OF safe] show ?thesis
    by (simp add: safe ex_code)
qed

section \<open>Properties of \<open>restoreOriginalNames\<close>\<close>

lemma restoreLoop_map:
  "restoreLoop Win32 rename tempFileMap outputDir processedFiles restoredFiles
     = restoredFiles @ restoreNames_amended Win32 rename tempFileMap processedFiles outputDir"
proof (induction processedFiles arbitrary: restoredFiles)
  case Nil
  then show ?case by (simp add: restoreNames_amended_def)
next
  case (Cons pf rest)
  have n: "normalizeSourcePath (sourcePath pf) = hostNormalize Win32 (sourcePath pf)"
    by (simp add: normalizeSourcePath_def hostNormalize_def)
  have r: "\<And>tempInfo. basename (ti_originalName tempInfo) (extname (ti_originalName tempInfo)) @ js ''.webp''
             = restoredName tempInfo"
    by (simp add: restoredName_def basename_withoutExtension)
  show ?case
    by (simp add: Cons.IH n r Let_def restoreNames_amended_def split: option.splits)
qed

text \<open>
  C2, amended: on a host whose separator is \<open>\\<close>, for every processed descriptor the
  lookup is made on the staged source path normalized for that separator; without a mapping
  entry a \<open>Failure\<close> with the reason \<open>No mapping found\<close> is emitted and the loop goes on;
  with an entry the artifact is renamed to the original base name with the extension
  \<open>.webp\<close> inside the output directory, and \<open>Success\<close> is reported when the rename
  resolves, a \<open>Failure\<close> with the message of the error when it rejects.
\<close>

theorem restoreOriginalNames_amended:
  "restoreOriginalNames Win32 rename tempFileMap processedFiles outputDir
     = restoreNames_amended Win32 rename tempFileMap processedFiles outputDir"
  by (simp add: restoreOriginalNames_def restoreLoop_map)

lemma cx_sanitized: "sanitizeFileName (js ''a#1.png'') = js ''a_1.png''"
proof -
  have e: "extname (js ''a#1.png'') = js ''.png''"
    by (simp add: js_def extname_def afterLastDot_def dot_def)
  have b: "basename (js ''a#1.png'') (js ''.png'') = js ''a#1''"
    by (simp add: js_def basename_def)
  have s: "sanitizeBase (js ''a#1'') = js ''a_1''"
    by (simp add: js_def sanitizeBase_def replaceProblematicChars_def substring0_def
        trimUnderscores_def fallbackName_def underscore_def problematicChars_def isSafeChar_def
        isWordChar_def isWhitespace_def)
  show ?thesis
    by (simp add: sanitizeFileName_def e b s) (simp add: js_def)
qed

lemma cx_restoredName: "restoredName cx_info = js ''a#1.webp''"
proof -
  have e: "extname (js ''a#1.png'') = js ''.png''"
    by (simp add: js_def extname_def afterLastDot_def dot_def)
  have "withoutExtension (js ''a#1.png'') = js ''a#1''"
    by (simp add: withoutExtension_def e) (simp add: js_def)
  then show ?thesis
    by (simp add: restoredName_def cx_info_def) (simp add: js_def)
qed

lemma cx_basename: "basename (js ''a#1.png'') (extname (js ''a#1.png'')) @ js ''.webp'' = js ''a#1.webp''"
  using cx_restoredName by (simp add: restoredName_def cx_info_def basename_withoutExtension)

lemma cx_win_key: "normalizeSourcePath (js ''tmp/a_1.png'') = pathJoin Win32 (js ''tmp'') (js ''a_1.png'')"
  by (simp add: normalizeSourcePath_def pathJoin_def hostSep_def js_def slash_def backslash_def)

lemma cx_win_code:
  "restoreOriginalNames Win32 rejects [pathJoin Win32 (js ''tmp'') (js ''a_1.png'') \<mapsto> cx_info]
     [cx_descriptor] (js ''out'')
   = [Failure (js ''a#1.png'') (js ''EPERM: operation not permitted'')]"
  by (simp add: restoreOriginalNames_def cx_descriptor_def cx_win_key rejects_def Let_def cx_info_def)

lemma cx_win_spec:
  "restoreNames_spec Win32 [pathJoin Win32 (js ''tmp'') (js ''a_1.png'') \<mapsto> cx_info]
     [cx_descriptor] (js ''out'')
   = [Success (js ''a#1.png'') (js ''a#1.webp'') (Some (pathJoin Win32 (js ''out'') (js ''a#1.webp'')))]"
proof -
  have "hostNormalize Win32 (js ''tmp/a_1.png'') = pathJoin Win32 (js ''tmp'') (js ''a_1.png'')"
    using cx_win_key by (simp add: normalizeSourcePath_def hostNormalize_def)
  then show ?thesis
    by (simp add: restoreNames_spec_def cx_descriptor_def cx_restoredName) (simp add: cx_info_def)
qed

lemma cx_posix_key: "pathJoin Posix (js ''tmp'') (js ''a_1.png'') = js ''tmp/a_1.png''"
  by (simp add: pathJoin_def hostSep_def js_def slash_def)

lemma cx_posix_stage:
  "createTempFiles Posix resolves Map.empty [cx_image] (js ''tmp'')
   = Inr ([\<lparr> tf_originalName = js ''a#1.png'', tf_originalPath = js ''in/a#1.png'',
              tf_sanitizedName = js ''a_1.png'', tf_tempPath = js ''tmp/a_1.png'',
              tf_extension = js ''.png'' \<rparr>],
          [js ''tmp/a_1.png'' \<mapsto> cx_info])"
  by (simp add: createTempFiles_def cx_image_def cx_sanitized cx_posix_key resolves_def Let_def cx_info_def)

lemma cx_posix_code:
  "restoreOriginalNames Posix resolves [js ''tmp/a_1.png'' \<mapsto> cx_info] [cx_descriptor] (js ''out'')
   = [Failure (js ''unknown'') (js ''No mapping found'')]"
proof -
  have "normalizeSourcePath (js ''tmp/a_1.png'') \<noteq> js ''tmp/a_1.png''"
    by (simp add: normalizeSourcePath_def js_def slash_def backslash_def)
  then show ?thesis
    by (simp add: restoreOriginalNames_def cx_descriptor_def Let_def)
qed

lemma cx_posix_spec:
  "restoreNames_spec Posix [js ''tmp/a_1.png'' \<mapsto> cx_info] [cx_descriptor] (js ''out'')
   = [Success (js ''a#1.png'') (js ''a#1.webp'') (Some (pathJoin Posix (js ''out'') (js ''a#1.webp'')))]"
  by (simp add: restoreNames_spec_def cx_descriptor_def hostNormalize_def cx_restoredName)
     (simp add: cx_info_def)

text \<open>
  C2 as the claim states it fails twice.  On Windows a rename that rejects gives a
  \<open>Failure\<close> although the mapping entry exists.  On a POSIX host the entry recorded by
  \<open>createTempFiles\<close> under \<open>tmp/a_1.png\<close> is looked up under \<open>tmp\\a_1.png\<close> and not found.
\<close>

theorem restoreNames_counterexample:
  "restoreOriginalNames Win32 rejects [pathJoin Win32 (js ''tmp'') (js ''a_1.png'') \<mapsto> cx_info]
     [cx_descriptor] (js ''out'')
     = [Failure (js ''a#1.png'') (js ''EPERM: operation not permitted'')]
   \<and> restoreNames_spec Win32 [pathJoin Win32 (js ''tmp'') (js ''a_1.png'') \<mapsto> cx_info]
     [cx_descriptor] (js ''out'')
     = [Success (js ''a#1.png'') (js ''a#1.webp'') (Some (pathJoin Win32 (js ''out'') (js ''a#1.webp'')))]
   \<and> createTempFiles Posix resolves Map.empty [cx_image] (js ''tmp'')
     = Inr ([\<lparr> tf_originalName = js ''a#1.png'', tf_originalPath = js ''in/a#1.png'',
                tf_sanitizedName = js ''a_1.png'', tf_tempPath = js ''tmp/a_1.png'',
                tf_extension = js ''.png'' \<rparr>],
            [js ''tmp/a_1.png'' \<mapsto> cx_info])
   \<and> restoreOriginalNames Posix resolves [js ''tmp/a_1.png'' \<mapsto> cx_info] [cx_descriptor] (js ''out'')
     = [Failure (js ''unknown'') (js ''No mapping found'')]
   \<and> restoreNames_spec Posix [js ''tmp/a_1.png'' \<mapsto> cx_info] [cx_descriptor] (js ''out'')
     = [Success (js ''a#1.png'') (js ''a#1.webp'') (Some (pathJoin Posix (js ''out'') (js ''a#1.webp'')))]"
  using cx_win_code cx_win_spec cx_posix_stage cx_posix_code cx_posix_spec by blast

theorem restoreOriginalNames_amended_witness:
  "restoreOriginalNames Win32 resolves [pathJoin Win32 (js ''tmp'') (js ''a_1.png'') \<mapsto> cx_info]
     [cx_descriptor] (js ''out'')
   = [Success (js ''a#1.png'') (js ''a#1.webp'') (Some (pathJoin Win32 (js ''out'') (js ''a#1.webp'')))]"
proof -
  have "hostNormalize Win32 (js ''tmp/a_1.png'') = pathJoin Win32 (js ''tmp'') (js ''a_1.png'')"
    using cx_win_key by (simp add: normalizeSourcePath_def hostNormalize_def)
  then show ?thesis
    unfolding restoreOriginalNames_amended
    by (simp add: restoreNames_amended_def cx_descriptor_def cx_restoredName resolves_def)
       (simp add: cx_info_def)
qed

section \<open>Properties of the chunk size\<close>

text \<open>
  C9: for every total and free memory reading the chunk size lies in the closed interval
  from 10 to 100.
\<close>

theorem getOptimalChunkSize_bounds:
  "10 \<le> getOptimalChunkSize totalMemory freeMemory
   \<and> getOptimalChunkSize totalMemory freeMemory \<le> 100"
  by (simp add: getOptimalChunkSize_def clampChunk_def Let_def)

section \<open>Properties of the Sharp run\<close>

subsection \<open>The file system under cleanup\<close>

lemma dirs_fs_rm: "set (dirs (fs_rm d fsys)) = set (dirs fsys) - {d}"
  by (auto simp: fs_rm_def)

lemma entries_fs_rm: "set (entries (fs_rm d fsys)) = {e \<in> set (entries fsys). fst e \<noteq> d}"
  by (auto simp: fs_rm_def)

lemma dirs_fs_mkdir: "set (dirs (fs_mkdir d fsys)) = insert d (set (dirs fsys))"
  by (auto simp: fs_mkdir_def)

lemma entries_fs_mkdir: "entries (fs_mkdir d fsys) = entries fsys"
  by (simp add: fs_mkdir_def)

lemma dirs_fs_write: "dirs (fs_write d n fsys) = dirs fsys"
  by (simp add: fs_write_def)

lemma entries_fs_write: "set (entries (fs_write d n fsys)) = insert (d, n) (set (entries fsys))"
  by (auto simp: fs_write_def)

lemma dirs_fs_unlink: "dirs (fs_unlink d n fsys) = dirs fsys"
  by (simp add: fs_unlink_def)

lemma entries_fs_unlink: "set (entries (fs_unlink d n fsys)) = set (entries fsys) - {(d, n)}"
  by (auto simp: fs_unlink_def)

lemma dirs_foldl_rm:
  "set (dirs (foldl (\<lambda>fsys d. fs_rm d fsys) fsys ds)) = set (dirs fsys) - set ds"
  by (induction ds arbitrary: fsys) (auto simp: dirs_fs_rm)

lemma entries_foldl_rm:
  "set (entries (foldl (\<lambda>fsys d. fs_rm d fsys) fsys ds)) = {e \<in> set (entries fsys). fst e \<notin> set ds}"
  by (induction ds arbitrary: fsys) (auto simp: entries_fs_rm)

lemma performCleanup_fields:
  "isCancelled (performCleanup s) = isCancelled s"
  "progressCallback (performCleanup s) = progressCallback s"
  "delivered (performCleanup s) = delivered s"
  "processedCount (performCleanup s) = processedCount s"
  "currentOutputPath (performCleanup s) = currentOutputPath s"
  "tempDirectories (performCleanup s) = tempDirectories s"
  by (simp_all add: performCleanup_def Let_def split: option.splits)

lemma dirs_performCleanup:
  "set (dirs (disk (performCleanup s)))
     = set (dirs (disk s)) - set (tempDirectories s) - cleanedOutput s"
  by (auto simp: performCleanup_def cleanedOutput_def Let_def dirs_foldl_rm dirs_fs_rm
        split: option.splits)

lemma entries_performCleanup:
  "set (entries (disk (performCleanup s)))
     = {e \<in> set (entries (disk s)). fst e \<notin> set (tempDirectories s) \<and> fst e \<notin> cleanedOutput s}"
  by (auto simp: performCleanup_def cleanedOutput_def Let_def entries_foldl_rm entries_fs_rm
        split: option.splits)

lemma cancel_fields:
  "isCancelled (cancel s)"
  "progressCallback (cancel s) = progressCallback s"
  "delivered (cancel s) = delivered s"
  "processedCount (cancel s) = processedCount s"
  "currentOutputPath (cancel s) = currentOutputPath s"
  "tempDirectories (cancel s) = tempDirectories s"
  by (simp_all add: cancel_def performCleanup_fields)

lemma cleanedOutput_cancelled: "cleanedOutput (s\<lparr>isCancelled := b\<rparr>) = cleanedOutput s"
  by (simp add: cleanedOutput_def split: option.splits)

lemma dirs_cancel:
  "set (dirs (disk (cancel s))) = set (dirs (disk s)) - set (tempDirectories s) - cleanedOutput s"
  by (simp add: cancel_def dirs_performCleanup cleanedOutput_cancelled)

lemma entries_cancel:
  "set (entries (disk (cancel s)))
     = {e \<in> set (entries (disk s)). fst e \<notin> set (tempDirectories s) \<and> fst e \<notin> cleanedOutput s}"
  by (simp add: cancel_def entries_performCleanup cleanedOutput_cancelled)

lemma cancelIf_fields:
  "isCancelled (cancelIf b s) = (b \<or> isCancelled s)"
  "progressCallback (cancelIf b s) = progressCallback s"
  "delivered (cancelIf b s) = delivered s"
  "processedCount (cancelIf b s) = processedCount s"
  "currentOutputPath (cancelIf b s) = currentOutputPath s"
  "tempDirectories (cancelIf b s) = tempDirectories s"
  by (simp_all add: cancelIf_def cancel_fields)

lemma dirs_cancelIf:
  "set (dirs (disk (cancelIf b s)))
     = (if b then set (dirs (disk s)) - set (tempDirectories s) - cleanedOutput s
        else set (dirs (disk s)))"
  by (simp add: cancelIf_def dirs_cancel)

lemma entries_cancelIf:
  "set (entries (disk (cancelIf b s)))
     = (if b then {e \<in> set (entries (disk s)). fst e \<notin> set (tempDirectories s) \<and> fst e \<notin> cleanedOutput s}
        else set (entries (disk s)))"
  by (simp add: cancelIf_def entries_cancel)

lemma updateProgress_fields:
  "isCancelled (updateProgress c t p m s) = isCancelled s"
  "progressCallback (updateProgress c t p m s) = progressCallback s"
  "processedCount (updateProgress c t p m s) = processedCount s"
  "currentOutputPath (updateProgress c t p m s) = currentOutputPath s"
  "tempDirectories (updateProgress c t p m s) = tempDirectories s"
  "disk (updateProgress c t p m s) = disk s"
  by (simp_all add: updateProgress_def)


lemma performCleanup_twice:
  "set (dirs (disk (performCleanup (performCleanup s)))) = set (dirs (disk (performCleanup s)))"
  "set (entries (disk (performCleanup (performCleanup s)))) = set (entries (disk (performCleanup s)))"
  by (auto simp: dirs_performCleanup entries_performCleanup performCleanup_fields cleanedOutput_def
        split: option.splits)

subsection \<open>Directories under the steps of a run\<close>

lemmas field_simps_run = performCleanup_fields cancel_fields cancelIf_fields updateProgress_fields
  dirs_performCleanup dirs_cancel dirs_cancelIf dirs_fs_rm dirs_fs_mkdir dirs_fs_write dirs_fs_unlink

lemma registered_updateProgress: "registered env (updateProgress c t p m s) = registered env s"
  by (simp add: registered_def updateProgress_fields)

lemma registered_performCleanup: "registered env s \<Longrightarrow> registered env (performCleanup s)"
  by (auto simp: registered_def field_simps_run split: if_splits)

lemma registered_cancelIf: "registered env s \<Longrightarrow> registered env (cancelIf b s)"
  by (auto simp: registered_def field_simps_run split: if_splits)

lemma registered_count: "registered env (s\<lparr>processedCount := n\<rparr>) = registered env s"
  by (simp add: registered_def)

lemma registered_rm: "registered env s \<Longrightarrow> registered env (s\<lparr>disk := fs_rm d (disk s)\<rparr>)"
  by (auto simp: registered_def dirs_fs_rm split: if_splits)

lemma registered_checkOutputFolder:
  assumes "checkOutputFolder outputPath ev s = (r, s')" and "registered env s"
  shows "registered env s'"
  using assms
  by (auto simp: checkOutputFolder_def Let_def registered_cancelIf registered_rm split: if_splits)

lemma registered_ensureTempDir:
  assumes "ensureTempDir (env_tempDir env) ev created s = (r, s')" and "registered env s"
    and "env_outputPath env \<noteq> env_tempDir env"
  shows "registered env s'"
proof (cases "created")
  case True
  with assms show ?thesis by (simp add: ensureTempDir_def)
next
  case False
  show ?thesis
  proof (cases "mkdirError ev")
    case (Some msg)
    with False assms show ?thesis by (auto simp: ensureTempDir_def registered_cancelIf)
  next
    case None
    with False assms(1) have s': "s' = (cancelIf (cancelDuringMkdir ev)
        (s\<lparr>disk := fs_mkdir (env_tempDir env) (disk s)\<rparr>))
          \<lparr>tempDirectories := tempDirectories s @ [env_tempDir env]\<rparr>"
      by (auto simp: ensureTempDir_def Let_def cancelIf_fields)
    show ?thesis
      using assms(2,3) unfolding s'
      by (auto simp: registered_def field_simps_run split: if_splits)
  qed
qed

lemma registered_processSharpClean:
  assumes "processSharpClean h imageFile outputPath ev s = (r, s')" and "registered env s"
  shows "registered env s'"
  using assms
  by (auto simp: processSharpClean_def Let_def registered_def field_simps_run
        split: if_splits codec_outcome.splits)

lemma registered_processSharpSanitized:
  assumes "processSharpSanitized h imageFile outputPath tempDirPath ev s = (r, s')"
    and "registered env s"
  shows "registered env s'"
  using assms
  by (auto simp: processSharpSanitized_def Let_def registered_def field_simps_run
        split: if_splits codec_outcome.splits option.splits)

lemma registered_tryFile:
  assumes "tryFile env outputPath imageFile ev created s = (r, created', s')"
    and "registered env s" and "env_outputPath env \<noteq> env_tempDir env"
  shows "registered env s'"
  using assms
  by (auto simp: tryFile_def split: prod.splits sum.splits if_splits
        dest: registered_checkOutputFolder registered_ensureTempDir registered_processSharpClean
          registered_processSharpSanitized)

lemma registered_sequentialLoop:
  assumes "sequentialLoop env outputPath n script results created s = (results', created', s')"
    and "registered env s" and "env_outputPath env \<noteq> env_tempDir env"
  shows "registered env s'"
  using assms
proof (induction env outputPath n script results created s rule: sequentialLoop.induct)
  case (1 env outputPath n results created s)
  then show ?case by simp
next
  case (2 env outputPath n imageFile ev rest results created s)
  show ?case
  proof (cases "isCancelled s")
    case True
    with 2 show ?thesis by simp
  next
    case False
    obtain r c1 s1 where t: "tryFile env outputPath imageFile ev created s = (r, c1, s1)"
      by (cases "tryFile env outputPath imageFile ev created s") auto
    have r1: "registered env s1"
      using t "2.prems"(2,3) by (rule registered_tryFile)
    show ?thesis
    proof (cases r)
      case (Inr result)
      with 2 False t r1 show ?thesis
        by (simp add: Let_def registered_updateProgress registered_count)
    next
      case (Inl msg)
      with 2 False t r1 show ?thesis
        by (auto simp: registered_count split: if_splits)
    qed
  qed
qed

subsection \<open>Cancellation before any file completes\<close>

lemma registered_processSharpSequential:
  assumes "processSharpSequential env script outputPath s = (results, s')"
    and "registered env s" and "env_outputPath env \<noteq> env_tempDir env"
  shows "registered env s'"
proof -
  obtain rs c s1 where l: "sequentialLoop env outputPath (length script) script [] False s = (rs, c, s1)"
    by (cases "sequentialLoop env outputPath (length script) script [] False s") auto
  have r1: "registered env s1"
    using l assms(2,3) by (rule registered_sequentialLoop)
  show ?thesis
  proof (cases "c \<and> \<not> isCancelled s1")
    case True
    with assms(1) l have "s' = s1\<lparr>disk := fs_rm (env_tempDir env) (disk s1),
        tempDirectories := filter (\<lambda>d. d \<noteq> env_tempDir env) (tempDirectories s1)\<rparr>"
      by (auto simp: processSharpSequential_def)
    with r1 assms(3) show ?thesis
      by (auto simp: registered_def dirs_fs_rm split: if_splits)
  next
    case False
    with assms(1) l have "s' = s1" by (auto simp: processSharpSequential_def)
    with r1 show ?thesis by simp
  qed
qed

lemma registered_scanForImages:
  assumes "scanForImages env found s = (r, s')" and "registered env s"
  shows "registered env s'"
  using assms
  by (auto simp: scanForImages_def Let_def registered_cancelIf split: if_splits option.splits)

lemma registered_createOutputFolder:
  assumes "createOutputFolder env s = (r, s')" and "registered env s"
    and "env_outputPath env \<noteq> env_tempDir env"
  shows "registered env s'"
  using assms
  by (auto simp: createOutputFolder_def Let_def registered_def field_simps_run
        split: if_splits option.splits)

lemma registered_reset:
  assumes "env_outputPath env \<notin> set (dirs (disk s0))" and "env_tempDir env \<notin> set (dirs (disk s0))"
  shows "registered env (s0\<lparr>progressCallback := cb, isCancelled := False, processedCount := 0,
           currentOutputPath := None, tempDirectories := []\<rparr>)"
  using assms by (simp add: registered_def)

lemma failRun_cancelled:
  assumes "failRun msg x = (outcome, s)" and "isCancelled s"
  shows "s = performCleanup x"
  using assms by (auto simp: failRun_def performCleanup_fields split: if_splits)

lemma processImages_cancelled:
  assumes run: "processImages cb env script s0 = (outcome, s)"
    and c: "isCancelled s"
    and fresh: "env_outputPath env \<notin> set (dirs (disk s0))" "env_tempDir env \<notin> set (dirs (disk s0))"
    and ne: "env_outputPath env \<noteq> env_tempDir env"
  shows "\<exists>x. s = performCleanup x \<and> registered env x"
proof -
  define a where "a = updateProgress 0 0 0 (js ''Scanning for images...'')
      (s0\<lparr>progressCallback := cb, isCancelled := False, processedCount := 0,
           currentOutputPath := None, tempDirectories := []\<rparr>)"
  have ra: "registered env a"
    unfolding a_def registered_updateProgress using fresh by (rule registered_reset)
  obtain r1 b where scan: "scanForImages env (map fst script) a = (r1, b)"
    by (cases "scanForImages env (map fst script) a") auto
  have rb: "registered env b" using scan ra by (rule registered_scanForImages)
  note run' = run [unfolded processImages_def Let_def, folded a_def, unfolded scan]
  show ?thesis
  proof (cases r1)
    case (Inl msg)
    with run' have "failRun msg b = (outcome, s)" by simp
    then have "s = performCleanup b" using c by (rule failRun_cancelled)
    with rb show ?thesis by blast
  next
    case (Inr imageFiles)
    show ?thesis
    proof (cases "isCancelled b \<or> imageFiles = []")
      case True
      with run' Inr obtain msg where "failRun msg b = (outcome, s)"
        by (auto split: if_splits)
      then have "s = performCleanup b" using c by (rule failRun_cancelled)
      with rb show ?thesis by blast
    next
      case False
      define d where "d = cancelIf (cancelDuringMeasure env)
          (updateProgress 0 (length imageFiles) 0 (js ''Measuring file sizes...'') b)"
      have rd: "registered env d"
        unfolding d_def using rb by (simp add: registered_cancelIf registered_updateProgress)
      show ?thesis
      proof (cases "isCancelled d")
        case True
        with run' Inr False have "failRun (js ''Processing cancelled during input measurement'') d = (outcome, s)"
          by (simp add: d_def)
        then have "s = performCleanup d" using c by (rule failRun_cancelled)
        with rd show ?thesis by blast
      next
        case nd: False
        define e where "e = updateProgress 0 (length imageFiles) 0 (js ''Creating output folder...'') d"
        have re: "registered env e" unfolding e_def using rd by (simp add: registered_updateProgress)
        obtain r2 f where cr: "createOutputFolder env e = (r2, f)"
          by (cases "createOutputFolder env e") auto
        have rf: "registered env f" using cr re ne by (rule registered_createOutputFolder)
        from run' Inr False nd
        have run2: "(case (r2, f) of
                      (Inl msg, s) \<Rightarrow> failRun msg s
                    | (Inr outputPath, s) \<Rightarrow>
                        if isCancelled s
                        then failRun (js ''Processing cancelled during output folder creation'') s
                        else (case processSharpSequential env script outputPath s of
                                (results, s) \<Rightarrow>
                                  if isCancelled s
                                  then failRun (js ''Processing was cancelled by user'') (performCleanup s)
                                  else (Completed (length (filter isSuccess results)) (length imageFiles) outputPath results,
                                        updateProgress (length (filter isSuccess results)) (length imageFiles) 100
                                          (js ''Calculating compression statistics...'') s)))
                    = (outcome, s)"
          by (simp add: d_def [symmetric] e_def [symmetric] cr)
        show ?thesis
        proof (cases r2)
          case (Inl msg)
          with run2 have "failRun msg f = (outcome, s)" by simp
          then have "s = performCleanup f" using c by (rule failRun_cancelled)
          with rf show ?thesis by blast
        next
          case out: (Inr outputPath)
          show ?thesis
          proof (cases "isCancelled f")
            case True
            with run2 out have "failRun (js ''Processing cancelled during output folder creation'') f = (outcome, s)"
              by simp
            then have "s = performCleanup f" using c by (rule failRun_cancelled)
            with rf show ?thesis by blast
          next
            case nf: False
            obtain results g where sq: "processSharpSequential env script outputPath f = (results, g)"
              by (cases "processSharpSequential env script outputPath f") auto
            have rg: "registered env g" using sq rf ne by (rule registered_processSharpSequential)
            show ?thesis
            proof (cases "isCancelled g")
              case True
              with run2 out nf sq
              have "failRun (js ''Processing was cancelled by user'') (performCleanup g) = (outcome, s)"
                by simp
              then have "s = performCleanup (performCleanup g)" using c by (rule failRun_cancelled)
              moreover have "registered env (performCleanup g)"
                using rg by (rule registered_performCleanup)
              ultimately show ?thesis by blast
            next
              case False
              with run2 out nf sq have "isCancelled s = isCancelled g"
                by (auto simp: updateProgress_fields)
              with c False show ?thesis by simp
            qed
          qed
        qed
      qed
    qed
  qed
qed

subsection \<open>The output folder after failed attempts\<close>

lemmas entry_simps = entries_cancelIf entries_fs_rm entries_fs_mkdir entries_fs_write entries_fs_unlink

lemma noOutputs_iff: "noOutputs outputPath s \<longleftrightarrow> (\<forall>e\<in>set (entries (disk s)). fst e \<noteq> outputPath)"
  by (simp add: noOutputs_def list_all_iff)

lemma outputKept_cancelIf:
  assumes "outputKept env outputPath s" and "outputPath \<noteq> env_tempDir env"
  shows "outputKept env outputPath (cancelIf b s)"
  using assms
  by (auto simp: outputKept_def cancelIf_fields dirs_cancelIf cleanedOutput_def split: if_splits)

lemma noOutputs_cancelIf: "noOutputs outputPath s \<Longrightarrow> noOutputs outputPath (cancelIf b s)"
  by (auto simp: noOutputs_iff entries_cancelIf)

lemma outputKept_checkOutputFolder:
  assumes "checkOutputFolder outputPath ev s = (r, s')" and "outputKept env outputPath s"
    and "outputPath \<noteq> env_tempDir env" and "\<not> folderRemoved ev"
  shows "outputKept env outputPath s' \<and> processedCount s' = processedCount s"
  using assms
  by (auto simp: checkOutputFolder_def Let_def cancelIf_fields outputKept_cancelIf split: if_splits)

lemma noOutputs_checkOutputFolder:
  assumes "checkOutputFolder outputPath ev s = (r, s')" and "noOutputs outputPath s"
  shows "noOutputs outputPath s'"
  using assms
  by (auto simp: checkOutputFolder_def Let_def noOutputs_iff entry_simps split: if_splits)

lemma outputKept_ensureTempDir:
  assumes "ensureTempDir (env_tempDir env) ev created s = (r, s')" and "outputKept env outputPath s"
    and "outputPath \<noteq> env_tempDir env"
  shows "outputKept env outputPath s' \<and> processedCount s' = processedCount s"
proof (cases "created")
  case True
  with assms show ?thesis by (simp add: ensureTempDir_def)
next
  case False
  show ?thesis
  proof (cases "mkdirError ev")
    case (Some msg)
    with False assms show ?thesis
      by (auto simp: ensureTempDir_def cancelIf_fields outputKept_cancelIf)
  next
    case None
    define s1 where "s1 = s\<lparr>disk := fs_mkdir (env_tempDir env) (disk s)\<rparr>"
    have k1: "outputKept env outputPath s1"
      using assms(2) by (auto simp: outputKept_def s1_def dirs_fs_mkdir)
    have k2: "outputKept env outputPath (cancelIf (cancelDuringMkdir ev) s1)"
      using k1 assms(3) by (rule outputKept_cancelIf)
    from None False assms(1)
    have s': "s' = (cancelIf (cancelDuringMkdir ev) s1)
                \<lparr>tempDirectories := tempDirectories (cancelIf (cancelDuringMkdir ev) s1) @ [env_tempDir env]\<rparr>"
      by (auto simp: ensureTempDir_def Let_def s1_def)
    show ?thesis
      using k2 unfolding s' by (auto simp: outputKept_def cancelIf_fields s1_def)
  qed
qed

lemma noOutputs_ensureTempDir:
  assumes "ensureTempDir tempDirPath ev created s = (r, s')" and "noOutputs outputPath s"
  shows "noOutputs outputPath s'"
  using assms
  by (auto simp: ensureTempDir_def Let_def noOutputs_iff entry_simps split: if_splits option.splits)

lemma outputKept_write:
  "outputKept env outputPath (s\<lparr>disk := fs_write d n (disk s)\<rparr>) = outputKept env outputPath s"
  by (simp add: outputKept_def dirs_fs_write)

lemma outputKept_unlink:
  "outputKept env outputPath (s\<lparr>disk := fs_unlink d n (disk s)\<rparr>) = outputKept env outputPath s"
  by (simp add: outputKept_def dirs_fs_unlink)

lemma outputKept_processSharpClean:
  assumes "processSharpClean h imageFile outputPath ev s = (r, s')" and "outputKept env outputPath s"
    and "outputPath \<noteq> env_tempDir env"
  shows "outputKept env outputPath s' \<and> processedCount s' = processedCount s"
proof (cases "isCancelled s")
  case True
  with assms show ?thesis by (simp add: processSharpClean_def)
next
  case False
  show ?thesis
  proof (cases "codec ev")
    case (CodecError msg)
    with False assms show ?thesis
      by (auto simp: processSharpClean_def Let_def cancelIf_fields outputKept_cancelIf split: if_splits)
  next
    case Converted
    define n where "n = basename (f_name imageFile) (extname (f_name imageFile)) @ js ''.webp''"
    define s1 where "s1 = s\<lparr>disk := fs_write outputPath n (disk s)\<rparr>"
    define s2 where "s2 = cancelIf (cancelDuringCodec ev) s1"
    have k1: "outputKept env outputPath s1"
      using assms(2) by (simp add: s1_def outputKept_write)
    have k2: "outputKept env outputPath s2"
      unfolding s2_def using k1 assms(3) by (rule outputKept_cancelIf)
    have c2: "processedCount s2 = processedCount s"
      by (simp add: s2_def s1_def cancelIf_fields)
    from Converted False assms(1)
    have "s' = s2 \<or> s' = s2\<lparr>disk := fs_unlink outputPath n (disk s2)\<rparr>"
      by (auto simp: processSharpClean_def Let_def n_def s1_def s2_def split: if_splits)
    with k2 c2 show ?thesis by (auto simp: outputKept_unlink)
  qed
qed

lemma processSharpClean_result:
  assumes "processSharpClean h imageFile outputPath ev s = (Inr result, s')"
  shows "\<not> isCancelled s' \<and> isSuccess result"
  using assms
  by (auto simp: processSharpClean_def Let_def split: if_splits codec_outcome.splits)

lemma noOutputs_processSharpClean:
  assumes "processSharpClean h imageFile outputPath ev s = (Inl msg, s')" and "noOutputs outputPath s"
  shows "noOutputs outputPath s'"
  using assms
  by (auto simp: processSharpClean_def Let_def noOutputs_iff entry_simps
        split: if_splits codec_outcome.splits)

lemma outputKept_processSharpSanitized:
  assumes "processSharpSanitized h imageFile outputPath tempDirPath ev s = (r, s')"
    and "outputKept env outputPath s" and "outputPath \<noteq> env_tempDir env"
  shows "outputKept env outputPath s' \<and> processedCount s' = processedCount s"
proof (cases "isCancelled s \<or> copyError ev \<noteq> None")
  case True
  with assms show ?thesis
    by (auto simp: processSharpSanitized_def Let_def split: if_splits)
next
  case False
  define sn where "sn = sanitizeFileName (f_name imageFile)"
  define n where "n = basename (f_name imageFile) (extname (f_name imageFile)) @ js ''.webp''"
  define s1 where "s1 = s\<lparr>disk := fs_write tempDirPath sn (disk s)\<rparr>"
  have k1: "outputKept env outputPath s1"
    using assms(2) by (simp add: s1_def outputKept_write)
  show ?thesis
  proof (cases "codec ev")
    case (CodecError msg)
    with False assms(1) have "s' = cancelIf (cancelDuringCodec ev) s1"
      by (auto simp: processSharpSanitized_def Let_def s1_def sn_def split: if_splits)
    with k1 assms(3) show ?thesis
      by (simp add: outputKept_cancelIf cancelIf_fields s1_def)
  next
    case Converted
    define s2 where "s2 = s1\<lparr>disk := fs_write outputPath n (disk s1)\<rparr>"
    define s3 where "s3 = cancelIf (cancelDuringCodec ev) s2"
    define s4 where "s4 = s3\<lparr>disk := fs_unlink tempDirPath sn (disk s3)\<rparr>"
    have k2: "outputKept env outputPath s2"
      using k1 by (simp add: s2_def outputKept_write)
    have k3: "outputKept env outputPath s3"
      unfolding s3_def using k2 assms(3) by (rule outputKept_cancelIf)
    have k4: "outputKept env outputPath s4"
      using k3 by (simp add: s4_def outputKept_unlink)
    have c4: "processedCount s4 = processedCount s"
      by (simp add: s4_def s3_def s2_def s1_def cancelIf_fields)
    from Converted False assms(1)
    have "s' = s4 \<or> s' = s4\<lparr>disk := fs_unlink outputPath n (disk s4)\<rparr>"
      by (auto simp: processSharpSanitized_def Let_def n_def sn_def s1_def s2_def s3_def s4_def
            split: if_splits)
    with k4 c4 show ?thesis by (auto simp: outputKept_unlink)
  qed
qed

lemma processSharpSanitized_result:
  assumes "processSharpSanitized h imageFile outputPath tempDirPath ev s = (Inr result, s')"
  shows "\<not> isCancelled s' \<and> isSuccess result"
  using assms
  by (auto simp: processSharpSanitized_def Let_def
        split: if_splits codec_outcome.splits option.splits)

lemma noOutputs_processSharpSanitized:
  assumes "processSharpSanitized h imageFile outputPath tempDirPath ev s = (Inl msg, s')"
    and "noOutputs outputPath s" and "outputPath \<noteq> tempDirPath"
  shows "noOutputs outputPath s'"
  using assms
  by (auto simp: processSharpSanitized_def Let_def noOutputs_iff entry_simps
        split: if_splits codec_outcome.splits option.splits)

lemma tryFile_outputKept:
  assumes t: "tryFile env outputPath imageFile ev created s = (r, created', s')"
    and k: "outputKept env outputPath s"
    and ne: "outputPath \<noteq> env_tempDir env" and nr: "\<not> folderRemoved ev"
  shows "outputKept env outputPath s' \<and> processedCount s' = processedCount s"
proof -
  obtain r1 s1 where c: "checkOutputFolder outputPath ev s = (r1, s1)"
    by (cases "checkOutputFolder outputPath ev s") auto
  have k1: "outputKept env outputPath s1 \<and> processedCount s1 = processedCount s"
    using c k ne nr by (rule outputKept_checkOutputFolder)
  show ?thesis
  proof (cases r1)
    case (Inl msg)
    with t c k1 show ?thesis by (simp add: tryFile_def)
  next
    case (Inr u)
    show ?thesis
    proof (cases "needsSanitization (f_name imageFile)")
      case False
      obtain r3 s3 where p: "processSharpClean (env_host env) imageFile outputPath ev s1 = (r3, s3)"
        by (cases "processSharpClean (env_host env) imageFile outputPath ev s1") auto
      have "outputKept env outputPath s3 \<and> processedCount s3 = processedCount s1"
        using outputKept_processSharpClean [OF p conjunct1 [OF k1] ne] .
      with t c Inr False p k1 show ?thesis by (simp add: tryFile_def)
    next
      case True
      obtain r2 s2 where e: "ensureTempDir (env_tempDir env) ev created s1 = (r2, s2)"
        by (cases "ensureTempDir (env_tempDir env) ev created s1") auto
      have k2: "outputKept env outputPath s2 \<and> processedCount s2 = processedCount s1"
        using outputKept_ensureTempDir [OF e conjunct1 [OF k1] ne] .
      show ?thesis
      proof (cases r2)
        case (Inl msg)
        with t c Inr True e k1 k2 show ?thesis by (simp add: tryFile_def)
      next
        case cr: (Inr created2)
        obtain r3 s3 where p: "processSharpSanitized (env_host env) imageFile outputPath (env_tempDir env) ev s2 = (r3, s3)"
          by (cases "processSharpSanitized (env_host env) imageFile outputPath (env_tempDir env) ev s2") auto
        have "outputKept env outputPath s3 \<and> processedCount s3 = processedCount s2"
          using outputKept_processSharpSanitized [OF p conjunct1 [OF k2] ne] .
        with t c Inr True e cr p k1 k2 show ?thesis by (simp add: tryFile_def)
      qed
    qed
  qed
qed

lemma tryFile_result:
  assumes "tryFile env outputPath imageFile ev created s = (Inr result, created', s')"
  shows "\<not> isCancelled s' \<and> isSuccess result"
  using assms
  by (auto simp: tryFile_def split: prod.splits sum.splits if_splits
        dest: processSharpClean_result processSharpSanitized_result)

lemma tryFile_noOutputs:
  assumes "tryFile env outputPath imageFile ev created s = (Inl msg, created', s')"
    and "noOutputs outputPath s" and "outputPath \<noteq> env_tempDir env"
  shows "noOutputs outputPath s'"
  using assms
  by (auto simp: tryFile_def split: prod.splits sum.splits if_splits
        dest: noOutputs_checkOutputFolder noOutputs_ensureTempDir noOutputs_processSharpClean
          noOutputs_processSharpSanitized)

lemma sequentialLoop_outputKept:
  assumes "sequentialLoop env outputPath n script results created s = (results', created', s')"
    and "outputKept env outputPath s" and "processedCount s = length results"
    and "list_all (\<lambda>r. \<not> isSuccess r) results \<longrightarrow> noOutputs outputPath s"
    and "list_all (\<lambda>x. \<not> folderRemoved (snd x)) script"
    and "outputPath \<noteq> env_tempDir env"
  shows "outputKept env outputPath s' \<and> processedCount s' = length results'
         \<and> (list_all (\<lambda>r. \<not> isSuccess r) results' \<longrightarrow> noOutputs outputPath s')"
  using assms
proof (induction script arbitrary: results created s)
  case Nil
  then show ?case by simp
next
  case (Cons x rest)
  obtain imageFile ev where x: "x = (imageFile, ev)" by (cases x) auto
  note loop = Cons.prems(1) [unfolded x]
  show ?case
  proof (cases "isCancelled s")
    case True
    with loop Cons.prems show ?thesis by simp
  next
    case False
    obtain r c1 s1 where t: "tryFile env outputPath imageFile ev created s = (r, c1, s1)"
      by (cases "tryFile env outputPath imageFile ev created s") auto
    from Cons.prems(5) x have nr: "\<not> folderRemoved ev"
      and rest: "list_all (\<lambda>x. \<not> folderRemoved (snd x)) rest"
      by simp_all
    have k1: "outputKept env outputPath s1" and c1: "processedCount s1 = length results"
      using tryFile_outputKept [OF t Cons.prems(2) Cons.prems(6) nr] Cons.prems(3) by simp_all
    show ?thesis
    proof (cases r)
      case (Inr result)
      have res: "\<not> isCancelled s1" "isSuccess result"
        using t Inr tryFile_result by blast+
      define s3 where "s3 = updateProgress (processedCount s1 + 1) n
          (real (processedCount s1 + 1) / real n * 100) (f_name imageFile)
          (s1\<lparr>processedCount := processedCount s1 + 1\<rparr>)"
      have k3: "outputKept env outputPath s3"
        using k1 res(1) by (auto simp: outputKept_def s3_def updateProgress_fields)
      have c3: "processedCount s3 = length (results @ [result])"
        using c1 by (simp add: s3_def updateProgress_fields)
      have n3: "list_all (\<lambda>r. \<not> isSuccess r) (results @ [result]) \<longrightarrow> noOutputs outputPath s3"
        using res(2) by simp
      have "sequentialLoop env outputPath n rest (results @ [result]) c1 s3 = (results', created', s')"
        using loop False t Inr by (simp add: Let_def s3_def)
      then show ?thesis
        using k3 c3 n3 rest Cons.prems(6) by (rule Cons.IH)
    next
      case (Inl msg)
      have n1: "list_all (\<lambda>r. \<not> isSuccess r) results \<longrightarrow> noOutputs outputPath s1"
        using Cons.prems(4,6) t Inl tryFile_noOutputs by blast
      show ?thesis
      proof (cases "isCancelled s1 \<or> js_includes msg (js ''cancelled'')")
        case True
        with loop False t Inl have "results' = results" "s' = s1" by auto
        with k1 c1 n1 show ?thesis by simp
      next
        case nb: False
        define s2 where "s2 = s1\<lparr>processedCount := processedCount s1 + 1\<rparr>"
        have k2: "outputKept env outputPath s2"
          using k1 nb by (auto simp: outputKept_def s2_def)
        have c2: "processedCount s2 = length (results @ [Failure (f_name imageFile) msg])"
          using c1 by (simp add: s2_def)
        have n2: "list_all (\<lambda>r. \<not> isSuccess r) (results @ [Failure (f_name imageFile) msg])
                    \<longrightarrow> noOutputs outputPath s2"
          using n1 by (simp add: s2_def noOutputs_def)
        have "sequentialLoop env outputPath n rest (results @ [Failure (f_name imageFile) msg]) c1 s2
                = (results', created', s')"
          using loop False t Inl nb by (simp add: s2_def)
        then show ?thesis
          using k2 c2 n2 rest Cons.prems(6) by (rule Cons.IH)
      qed
    qed
  qed
qed

lemma processSharpSequential_outputKept:
  assumes seq: "processSharpSequential env script outputPath s = (results, s')"
    and k: "outputKept env outputPath s" and c: "processedCount s = 0"
    and n: "noOutputs outputPath s"
    and nr: "list_all (\<lambda>x. \<not> folderRemoved (snd x)) script"
    and ne: "outputPath \<noteq> env_tempDir env"
  shows "outputKept env outputPath s' \<and> processedCount s' = length results
         \<and> (list_all (\<lambda>r. \<not> isSuccess r) results \<longrightarrow> noOutputs outputPath s')"
proof -
  obtain rs cr s1 where l: "sequentialLoop env outputPath (length script) script [] False s = (rs, cr, s1)"
    by (cases "sequentialLoop env outputPath (length script) script [] False s") auto
  have inv: "outputKept env outputPath s1 \<and> processedCount s1 = length rs
         \<and> (list_all (\<lambda>r. \<not> isSuccess r) rs \<longrightarrow> noOutputs outputPath s1)"
    using l k _ _ nr ne by (rule sequentialLoop_outputKept) (use c n in simp_all)
  show ?thesis
  proof (cases "cr \<and> \<not> isCancelled s1")
    case False
    with seq l have "results = rs" "s' = s1" by (auto simp: processSharpSequential_def)
    with inv show ?thesis by simp
  next
    case True
    with seq l have r: "results = rs"
      and s': "s' = s1\<lparr>disk := fs_rm (env_tempDir env) (disk s1),
          tempDirectories := filter (\<lambda>d. d \<noteq> env_tempDir env) (tempDirectories s1)\<rparr>"
      by (auto simp: processSharpSequential_def)
    show ?thesis
      using inv True ne unfolding r s'
      by (auto simp: outputKept_def noOutputs_iff dirs_fs_rm entries_fs_rm)
  qed
qed

text \<open>
  C10: through the conversion the counter of processed files is the number of results,
  failures as well as successes; the cleanup of a cancellation leaves the output folder on
  the disk exactly when a result has been recorded; and when every recorded result is a
  \<open>Failure\<close> the folder that is left holds no file.  The conversion starts as
  \<open>processImages\<close> starts it, and nobody else removes the folder.
\<close>

theorem failed_attempts_keep_output_folder:
  assumes "processSharpSequential env script outputPath s = (results, s')"
    and "\<not> isCancelled s" and "processedCount s = 0" and "tempDirectories s = []"
    and "currentOutputPath s = Some outputPath" and "outputPath \<in> set (dirs (disk s))"
    and "noOutputs outputPath s"
    and "list_all (\<lambda>x. \<not> folderRemoved (snd x)) script"
    and "outputPath \<noteq> env_tempDir env"
  shows "processedCount s' = length results
         \<and> (outputPath \<in> set (dirs (disk (performCleanup s'))) \<longleftrightarrow> results \<noteq> [])
         \<and> (list_all (\<lambda>r. \<not> isSuccess r) results \<longrightarrow> noOutputs outputPath (performCleanup s'))"
proof -
  have k: "outputKept env outputPath s"
    using assms(4,5,6) by (simp add: outputKept_def)
  have inv: "outputKept env outputPath s' \<and> processedCount s' = length results
         \<and> (list_all (\<lambda>r. \<not> isSuccess r) results \<longrightarrow> noOutputs outputPath s')"
    using assms(1) k assms(3,7,8,9) by (rule processSharpSequential_outputKept)
  have d: "outputPath \<in> set (dirs (disk (performCleanup s'))) \<longleftrightarrow> results \<noteq> []"
    using inv assms(9)
    by (auto simp: outputKept_def dirs_performCleanup cleanedOutput_def)
  have e: "list_all (\<lambda>r. \<not> isSuccess r) results \<longrightarrow> noOutputs outputPath (performCleanup s')"
    using inv by (auto simp: noOutputs_iff entries_performCleanup)
  from inv d e show ?thesis by blast
qed

subsection \<open>One result per file\<close>

text \<open>
  Once the flag is set the loop adds nothing.  In a run that nobody disturbs every scanned
  file has its result, in the order of the scan.
\<close>

lemma sequentialLoop_after_cancel:
  "isCancelled s \<Longrightarrow>
   sequentialLoop env outputPath n script results created s = (results, created, s)"
  by (cases script) auto

lemma cancelIf_False: "cancelIf False s = s"
  by (simp add: cancelIf_def)

lemma checkOutputFolder_undisturbed:
  assumes "checkOutputFolder outputPath ev s = (r, s')"
    and "\<not> folderRemoved ev" and "\<not> cancelDuringAccess ev"
    and "outputPath \<in> set (dirs (disk s))"
  shows "r = Inr () \<and> s' = s"
  using assms by (auto simp: checkOutputFolder_def Let_def cancelIf_False)

lemma ensureTempDir_undisturbed:
  assumes "ensureTempDir tempDirPath ev created s = (r, s')"
    and "\<not> cancelDuringMkdir ev" and "\<not> isCancelled s" and "outputPath \<in> set (dirs (disk s))"
  shows "\<not> isCancelled s' \<and> outputPath \<in> set (dirs (disk s'))
         \<and> (case r of Inl m \<Rightarrow> mkdirError ev = Some m | Inr c \<Rightarrow> True)"
  using assms
  by (auto simp: ensureTempDir_def Let_def cancelIf_False dirs_fs_mkdir
        split: if_splits option.splits)

lemma processSharpClean_undisturbed:
  assumes "processSharpClean h imageFile outputPath ev s = (r, s')"
    and "\<not> cancelDuringCodec ev" and "\<not> isCancelled s" and "outputPath \<in> set (dirs (disk s))"
  shows "\<not> isCancelled s' \<and> outputPath \<in> set (dirs (disk s'))
         \<and> (case r of
               Inl m \<Rightarrow> m \<in> set (thrownMessages imageFile ev)
             | Inr result \<Rightarrow> resultOriginal result = f_name imageFile)"
  using assms
  by (auto simp: processSharpClean_def Let_def cancelIf_False dirs_fs_write thrownMessages_def
        split: if_splits codec_outcome.splits)

lemma processSharpSanitized_undisturbed:
  assumes "processSharpSanitized h imageFile outputPath tempDirPath ev s = (r, s')"
    and "\<not> cancelDuringCodec ev" and "\<not> isCancelled s" and "outputPath \<in> set (dirs (disk s))"
  shows "\<not> isCancelled s' \<and> outputPath \<in> set (dirs (disk s'))
         \<and> (case r of
               Inl m \<Rightarrow> m \<in> set (thrownMessages imageFile ev)
             | Inr result \<Rightarrow> resultOriginal result = f_name imageFile)"
  using assms
  by (auto simp: processSharpSanitized_def Let_def cancelIf_False dirs_fs_write dirs_fs_unlink
        thrownMessages_def split: if_splits codec_outcome.splits option.splits)

lemma tryFile_undisturbed:
  assumes t: "tryFile env outputPath imageFile ev created s = (r, created', s')"
    and u: "undisturbed (imageFile, ev)"
    and nc: "\<not> isCancelled s" and d: "outputPath \<in> set (dirs (disk s))"
  shows "\<not> isCancelled s' \<and> outputPath \<in> set (dirs (disk s'))
         \<and> (case r of
               Inl m \<Rightarrow> \<not> js_includes m (js ''cancelled'')
             | Inr result \<Rightarrow> resultOriginal result = f_name imageFile)"
proof -
  from u have flags: "\<not> folderRemoved ev" "\<not> cancelDuringAccess ev" "\<not> cancelDuringMkdir ev"
      "\<not> cancelDuringCodec ev"
    and msgs: "\<forall>m\<in>set (thrownMessages imageFile ev). \<not> js_includes m (js ''cancelled'')"
    by (simp_all add: undisturbed_def list_all_iff)
  obtain r1 s1 where c: "checkOutputFolder outputPath ev s = (r1, s1)"
    by (cases "checkOutputFolder outputPath ev s") auto
  have c1: "r1 = Inr ()" "s1 = s"
    using checkOutputFolder_undisturbed [OF c flags(1,2) d] by simp_all
  show ?thesis
  proof (cases "needsSanitization (f_name imageFile)")
    case False
    obtain r3 s3 where p: "processSharpClean (env_host env) imageFile outputPath ev s = (r3, s3)"
      by (cases "processSharpClean (env_host env) imageFile outputPath ev s") auto
    from t c c1 False p have "r = r3" "s' = s3" by (simp_all add: tryFile_def)
    with processSharpClean_undisturbed [OF p flags(4) nc d] msgs show ?thesis
      by (auto split: sum.splits)
  next
    case True
    obtain r2 s2 where e: "ensureTempDir (env_tempDir env) ev created s = (r2, s2)"
      by (cases "ensureTempDir (env_tempDir env) ev created s") auto
    note e2 = ensureTempDir_undisturbed [OF e flags(3) nc d]
    show ?thesis
    proof (cases r2)
      case (Inl m)
      with e2 have "mkdirError ev = Some m" by simp
      then have "m \<in> set (thrownMessages imageFile ev)" by (simp add: thrownMessages_def)
      with msgs have "\<not> js_includes m (js ''cancelled'')" by blast
      moreover from t c c1 True e Inl have "r = Inl m" "s' = s2" by (simp_all add: tryFile_def)
      ultimately show ?thesis using e2 by simp
    next
      case (Inr c2)
      obtain r3 s3 where p: "processSharpSanitized (env_host env) imageFile outputPath (env_tempDir env) ev s2 = (r3, s3)"
        by (cases "processSharpSanitized (env_host env) imageFile outputPath (env_tempDir env) ev s2") auto
      from t c c1 True e Inr p have "r = r3" "s' = s3" by (simp_all add: tryFile_def)
      with processSharpSanitized_undisturbed [OF p flags(4)] e2 msgs show ?thesis
        by (auto split: sum.splits)
    qed
  qed
qed

lemma sequentialLoop_undisturbed:
  assumes "sequentialLoop env outputPath n script results created s = (results', created', s')"
    and "list_all undisturbed script"
    and "\<not> isCancelled s" and "outputPath \<in> set (dirs (disk s))"
  shows "map resultOriginal results' = map resultOriginal results @ map (\<lambda>x. f_name (fst x)) script
         \<and> \<not> isCancelled s' \<and> outputPath \<in> set (dirs (disk s'))"
  using assms
proof (induction script arbitrary: results created s)
  case Nil
  then show ?case by simp
next
  case (Cons x rest)
  obtain imageFile ev where x: "x = (imageFile, ev)" by (cases x) auto
  note loop = Cons.prems(1) [unfolded x]
  from Cons.prems(2) x have u: "undisturbed (imageFile, ev)" and ur: "list_all undisturbed rest"
    by simp_all
  obtain r c1 s1 where t: "tryFile env outputPath imageFile ev created s = (r, c1, s1)"
    by (cases "tryFile env outputPath imageFile ev created s") auto
  note t1 = tryFile_undisturbed [OF t u Cons.prems(3,4)]
  show ?case
  proof (cases r)
    case (Inr result)
    define s3 where "s3 = updateProgress (processedCount s1 + 1) n
        (real (processedCount s1 + 1) / real n * 100) (f_name imageFile)
        (s1\<lparr>processedCount := processedCount s1 + 1\<rparr>)"
    have n3: "\<not> isCancelled s3" and d3: "outputPath \<in> set (dirs (disk s3))"
      using t1 by (simp_all add: s3_def updateProgress_fields)
    have "sequentialLoop env outputPath n rest (results @ [result]) c1 s3 = (results', created', s')"
      using loop Cons.prems(3) t Inr by (simp add: Let_def s3_def)
    from Cons.IH [OF this ur n3 d3] t1 Inr show ?thesis by (simp add: x)
  next
    case (Inl m)
    define s2 where "s2 = s1\<lparr>processedCount := processedCount s1 + 1\<rparr>"
    have n2: "\<not> isCancelled s2" and d2: "outputPath \<in> set (dirs (disk s2))"
      using t1 by (simp_all add: s2_def)
    have "sequentialLoop env outputPath n rest (results @ [Failure (f_name imageFile) m]) c1 s2
            = (results', created', s')"
      using loop Cons.prems(3) t Inl t1 by (simp add: s2_def)
    from Cons.IH [OF this ur n2 d2] show ?thesis by (simp add: x)
  qed
qed

lemma processSharpSequential_undisturbed:
  assumes "processSharpSequential env script outputPath s = (results, s')"
    and "list_all undisturbed script"
    and "\<not> isCancelled s" and "outputPath \<in> set (dirs (disk s))"
  shows "map resultOriginal results = map (\<lambda>x. f_name (fst x)) script \<and> \<not> isCancelled s'"
proof -
  obtain rs cr s1 where l: "sequentialLoop env outputPath (length script) script [] False s = (rs, cr, s1)"
    by (cases "sequentialLoop env outputPath (length script) script [] False s") auto
  from sequentialLoop_undisturbed [OF l assms(2,3,4)]
  have "map resultOriginal rs = map (\<lambda>x. f_name (fst x)) script" "\<not> isCancelled s1" by simp_all
  moreover from assms(1) l have "results = rs" "isCancelled s' = isCancelled s1"
    by (auto simp: processSharpSequential_def split: if_splits)
  ultimately show ?thesis by simp
qed

lemma processImages_undisturbed:
  assumes run: "processImages cb env script s0 = (outcome, s)"
    and quiet_env: "scanError env = None" "\<not> cancelDuringScan env" "\<not> cancelDuringMeasure env"
      "createFolderError env = None" "\<not> cancelDuringCreate env"
    and files: "script \<noteq> []" "list_all undisturbed script"
  shows "\<exists>results. outcome = Completed (length (filter isSuccess results)) (length script)
                        (env_outputPath env) results
                  \<and> map resultOriginal results = map (\<lambda>x. f_name (fst x)) script"
proof -
  define f where "f = (updateProgress 0 (length script) 0 (js ''Creating output folder...'')
      (updateProgress 0 (length script) 0 (js ''Measuring file sizes...'')
        (updateProgress 0 0 0 (js ''Scanning for images...'')
          (s0\<lparr>progressCallback := cb, isCancelled := False, processedCount := 0,
               currentOutputPath := None, tempDirectories := []\<rparr>))))
      \<lparr>disk := fs_mkdir (env_outputPath env) (disk s0),
        currentOutputPath := Some (env_outputPath env)\<rparr>"
  have nf: "\<not> isCancelled f" and df: "env_outputPath env \<in> set (dirs (disk f))"
    by (simp_all add: f_def updateProgress_fields dirs_fs_mkdir)
  obtain results g where sq: "processSharpSequential env script (env_outputPath env) f = (results, g)"
    by (cases "processSharpSequential env script (env_outputPath env) f") auto
  note sq1 = processSharpSequential_undisturbed [OF sq files(2) nf df]
  have "processImages cb env script s0
          = (Completed (length (filter isSuccess results)) (length script) (env_outputPath env) results,
             updateProgress (length (filter isSuccess results)) (length script) 100
               (js ''Calculating compression statistics...'') g)"
    using quiet_env files(1) sq sq1 nf
    by (simp add: processImages_def scanForImages_def createOutputFolder_def cancelIf_False
          Let_def updateProgress_fields f_def)
  with run sq1 show ?thesis by auto
qed

section \<open>Example runs, evaluated\<close>

lemmas run_defs = processImages_def scanForImages_def createOutputFolder_def failRun_def
  processSharpSequential_def tryFile_def checkOutputFolder_def ensureTempDir_def
  processSharpClean_def processSharpSanitized_def cancelIf_def cancel_def performCleanup_def
  updateProgress_def fs_mkdir_def fs_rm_def fs_write_def fs_unlink_def

lemmas example_defs = calm_def quiet_def fresh_def converting_def imageNamed_def

lemma clean_names:
  "\<not> needsSanitization (js ''cancelled.jpg'')"
  "\<not> needsSanitization (js ''a.jpg'')"
  "\<not> needsSanitization (js ''b.jpg'')"
  by (simp_all add: needsSanitization_def js_def problematicChars_def isSafeChar_def isWordChar_def)

lemma unsafe_name: "needsSanitization (js ''pic#1.jpg'')"
  by (simp add: needsSanitization_def js_def problematicChars_def isSafeChar_def isWordChar_def
        isWhitespace_def)

lemma unsupported_error:
  "sharpError (js ''cancelled.jpg'') unsupported = js ''Unsupported format in cancelled.jpg''"
  "sharpError (js ''a.jpg'') unsupported = js ''Unsupported format in a.jpg''"
  by (simp_all add: sharpError_def unsupported_def js_def)

lemma mentions_cancelled:
  "js_includes (js ''Unsupported format in cancelled.jpg'') (js ''cancelled'')"
  "js_includes (js ''Output folder was removed - processing cancelled'') (js ''cancelled'')"
  "js_includes (js ''Processing was cancelled by user'') (js ''cancelled'')"
  "js_includes (js ''Processing cancelled after sanitized Sharp processing'') (js ''cancelled'')"
  "js_includes (js ''Processing cancelled after Sharp processing'') (js ''cancelled'')"
  "\<not> js_includes (js ''Unsupported format in a.jpg'') (js ''cancelled'')"
  "\<not> js_includes unsupported (js ''cancelled'')"
  by (simp_all add: js_def unsupported_def)

lemma webp_names:
  "basename (js ''a.jpg'') (extname (js ''a.jpg'')) @ js ''.webp'' = js ''a.webp''"
  "basename (js ''b.jpg'') (extname (js ''b.jpg'')) @ js ''.webp'' = js ''b.webp''"
  "basename (js ''pic#1.jpg'') (extname (js ''pic#1.jpg'')) @ js ''.webp'' = js ''pic#1.webp''"
  by (simp_all add: basename_def extname_def afterLastDot_def dot_def js_def)

lemma folder_names:
  "js ''in_compressed'' \<noteq> js ''in''" "js ''temp_1'' \<noteq> js ''in''"
  "js ''temp_1'' \<noteq> js ''in_compressed''" "js ''in_compressed'' \<noteq> js ''temp_1''"
  by (simp_all add: js_eq_iff)

lemma run_cancelled_name:
  "processImages True calm
     [(imageNamed ''cancelled.jpg'', quiet\<lparr>codec := CodecError unsupported\<rparr>), (imageNamed ''b.jpg'', quiet)] fresh
   = (Completed 0 2 (js ''in_compressed'') [],
      fresh\<lparr>progressCallback := True,
            delivered := [\<lparr>ev_current = 0, ev_total = 0, ev_percent = 0, ev_message = js ''Scanning for images...''\<rparr>,
                          \<lparr>ev_current = 0, ev_total = 2, ev_percent = 0, ev_message = js ''Measuring file sizes...''\<rparr>,
                          \<lparr>ev_current = 0, ev_total = 2, ev_percent = 0, ev_message = js ''Creating output folder...''\<rparr>,
                          \<lparr>ev_current = 0, ev_total = 2, ev_percent = 100, ev_message = js ''Calculating compression statistics...''\<rparr>],
            currentOutputPath := Some (js ''in_compressed''),
            disk := \<lparr>dirs = [js ''in_compressed'', js ''in''], entries = []\<rparr>\<rparr>)"
  by (simp add: run_defs example_defs clean_names unsupported_error mentions_cancelled folder_names Let_def)

lemma run_folder_removed:
  "processImages True calm
     [(imageNamed ''a.jpg'', quiet), (imageNamed ''b.jpg'', quiet\<lparr>folderRemoved := True\<rparr>)] fresh
   = (Completed 1 2 (js ''in_compressed'')
        [Success (js ''a.jpg'') (js ''a.webp'') (Some (js ''in_compressed/a.webp''))],
      fresh\<lparr>progressCallback := True,
            delivered := [\<lparr>ev_current = 0, ev_total = 0, ev_percent = 0, ev_message = js ''Scanning for images...''\<rparr>,
                          \<lparr>ev_current = 0, ev_total = 2, ev_percent = 0, ev_message = js ''Measuring file sizes...''\<rparr>,
                          \<lparr>ev_current = 0, ev_total = 2, ev_percent = 0, ev_message = js ''Creating output folder...''\<rparr>,
                          \<lparr>ev_current = 1, ev_total = 2, ev_percent = 50, ev_message = js ''a.jpg''\<rparr>,
                          \<lparr>ev_current = 1, ev_total = 2, ev_percent = 100, ev_message = js ''Calculating compression statistics...''\<rparr>],
            processedCount := 1,
            currentOutputPath := Some (js ''in_compressed''),
            disk := \<lparr>dirs = [js ''in''], entries = []\<rparr>\<rparr>)"
  by (simp add: run_defs example_defs clean_names webp_names mentions_cancelled folder_names Let_def
        pathJoin_def hostSep_def) (simp add: js_def slash_def)

lemma run_cancel_first_file:
  "processImages True calm [(imageNamed ''pic#1.jpg'', quiet\<lparr>cancelDuringCodec := True\<rparr>)] fresh
   = (Failed (js ''Image processing failed: Processing was cancelled by user''),
      fresh\<lparr>progressCallback := True, isCancelled := True,
            delivered := [\<lparr>ev_current = 0, ev_total = 0, ev_percent = 0, ev_message = js ''Scanning for images...''\<rparr>,
                          \<lparr>ev_current = 0, ev_total = 1, ev_percent = 0, ev_message = js ''Measuring file sizes...''\<rparr>,
                          \<lparr>ev_current = 0, ev_total = 1, ev_percent = 0, ev_message = js ''Creating output folder...''\<rparr>],
            currentOutputPath := Some (js ''in_compressed''),
            tempDirectories := [js ''temp_1''],
            disk := \<lparr>dirs = [js ''in''], entries = []\<rparr>\<rparr>)"
  by (simp add: run_defs example_defs unsafe_name webp_names mentions_cancelled folder_names Let_def)
     (simp add: js_def)

lemma sequential_failure_then_cancel:
  "processSharpSequential calm
     [(imageNamed ''a.jpg'', quiet\<lparr>codec := CodecError unsupported\<rparr>),
      (imageNamed ''b.jpg'', quiet\<lparr>cancelDuringCodec := True\<rparr>)] (js ''in_compressed'') converting
   = ([Failure (js ''a.jpg'') (js ''Unsupported format in a.jpg'')],
      converting\<lparr>isCancelled := True, processedCount := 1\<rparr>)"
  by (simp add: run_defs example_defs clean_names webp_names unsupported_error mentions_cancelled
        folder_names Let_def)

section \<open>The claims about the run\<close>

text \<open>
  C1 asks for one result per scanned file in every run that is not cancelled.  The run
  below is not cancelled.  It has two files; the codec rejects the first, \<open>cancelled.jpg\<close>,
  as an unsupported format.  The message of the error names the file, the loop takes the
  message for a cancellation and stops, and the run completes with no result for either
  file.
\<close>

theorem cancelled_file_name_drops_results:
  "fst (processImages True calm
          [(imageNamed ''cancelled.jpg'', quiet\<lparr>codec := CodecError unsupported\<rparr>),
           (imageNamed ''b.jpg'', quiet)] fresh)
     = Completed 0 2 (js ''in_compressed'') []
   \<and> \<not> isCancelled (snd (processImages True calm
          [(imageNamed ''cancelled.jpg'', quiet\<lparr>codec := CodecError unsupported\<rparr>),
           (imageNamed ''b.jpg'', quiet)] fresh))"
  by (simp only: run_cancelled_name fst_conv snd_conv) (simp add: fresh_def)

text \<open>
  The check of the output folder comes before anything is done with the file: when the
  folder is missing the loop stops at once, with the results it has and no result for the
  file.
\<close>

lemma tryFile_folder_missing:
  assumes "outputPath \<notin> set (dirs (disk s))"
  shows "tryFile env outputPath imageFile ev created s
           = (Inl (js ''Output folder was removed - processing cancelled''), created,
              cancelIf (cancelDuringAccess ev)
                (if folderRemoved ev then s\<lparr>disk := fs_rm outputPath (disk s)\<rparr> else s))"
  using assms by (simp add: tryFile_def checkOutputFolder_def Let_def dirs_fs_rm)

lemma sequentialLoop_folder_missing:
  assumes "\<not> isCancelled s" and "outputPath \<notin> set (dirs (disk s))"
  shows "sequentialLoop env outputPath n ((imageFile, ev) # rest) results created s
           = (results, created,
              cancelIf (cancelDuringAccess ev)
                (if folderRemoved ev then s\<lparr>disk := fs_rm outputPath (disk s)\<rparr> else s))"
  using assms by (simp add: tryFile_folder_missing mentions_cancelled)

text \<open>
  C3 asks for a fatal error of the run when the output folder is found missing.  In the
  run below the folder is removed before the second file; the loop stops, no \<open>Failure\<close> is
  recorded, and the run completes with \<open>success: true\<close> and the one result it has.
\<close>

theorem removed_output_folder_run_completes:
  "fst (processImages True calm
          [(imageNamed ''a.jpg'', quiet), (imageNamed ''b.jpg'', quiet\<lparr>folderRemoved := True\<rparr>)] fresh)
     = Completed 1 2 (js ''in_compressed'')
         [Success (js ''a.jpg'') (js ''a.webp'') (Some (js ''in_compressed/a.webp''))]
   \<and> \<not> isCancelled (snd (processImages True calm
          [(imageNamed ''a.jpg'', quiet), (imageNamed ''b.jpg'', quiet\<lparr>folderRemoved := True\<rparr>)] fresh))"
  by (simp only: run_folder_removed fst_conv snd_conv) (simp add: fresh_def)

text \<open>
  The cleanup itself: after \<open>cancel()\<close> in a state where no file has been counted, the temp
  directories the processor knows and its output folder are gone.
\<close>

lemma cancel_removes:
  assumes "processedCount s = 0"
  shows "list_all (\<lambda>d. d \<notin> set (dirs (disk (cancel s)))) (tempDirectories s)"
    and "currentOutputPath s = Some p \<Longrightarrow> p \<notin> set (dirs (disk (cancel s)))"
  using assms by (auto simp: list_all_iff dirs_cancel cleanedOutput_def)

text \<open>
  C6: when a run ends cancelled with no file counted, which is the case when the
  cancellation was requested before any file completed, neither the output folder nor the
  temp directory of the run is on the disk.  Both are directories the run makes: they were
  not there before it.
\<close>

theorem cancelled_before_any_file_completes:
  assumes "processImages cb env script s0 = (outcome, s)"
    and "isCancelled s" and "processedCount s = 0"
    and "env_outputPath env \<notin> set (dirs (disk s0))" and "env_tempDir env \<notin> set (dirs (disk s0))"
    and "env_outputPath env \<noteq> env_tempDir env"
  shows "env_outputPath env \<notin> set (dirs (disk s)) \<and> env_tempDir env \<notin> set (dirs (disk s))"
proof -
  obtain x where x: "s = performCleanup x" and r: "registered env x"
    using processImages_cancelled [OF assms(1,2,4,5,6)] by blast
  from x assms(3) have 0: "processedCount x = 0" by (simp add: performCleanup_fields)
  show ?thesis
    using r 0 unfolding x
    by (auto simp: registered_def dirs_performCleanup cleanedOutput_def split: if_splits)
qed

theorem cancelled_before_any_file_completes_witness:
  "fst (processImages True calm [(imageNamed ''pic#1.jpg'', quiet\<lparr>cancelDuringCodec := True\<rparr>)] fresh)
     = Failed (js ''Image processing failed: Processing was cancelled by user'')
   \<and> isCancelled (snd (processImages True calm
        [(imageNamed ''pic#1.jpg'', quiet\<lparr>cancelDuringCodec := True\<rparr>)] fresh))
   \<and> js ''in_compressed'' \<notin> set (dirs (disk (snd (processImages True calm
        [(imageNamed ''pic#1.jpg'', quiet\<lparr>cancelDuringCodec := True\<rparr>)] fresh))))
   \<and> js ''temp_1'' \<notin> set (dirs (disk (snd (processImages True calm
        [(imageNamed ''pic#1.jpg'', quiet\<lparr>cancelDuringCodec := True\<rparr>)] fresh))))"
proof -
  note run = run_cancel_first_file
  have "env_outputPath calm \<notin> set (dirs (disk fresh))" "env_tempDir calm \<notin> set (dirs (disk fresh))"
    "env_outputPath calm \<noteq> env_tempDir calm"
    by (simp_all add: fresh_def calm_def folder_names)
  with cancelled_before_any_file_completes [OF run]
  have "env_outputPath calm \<notin> set (dirs (disk (snd (processImages True calm
          [(imageNamed ''pic#1.jpg'', quiet\<lparr>cancelDuringCodec := True\<rparr>)] fresh))))
      \<and> env_tempDir calm \<notin> set (dirs (disk (snd (processImages True calm
          [(imageNamed ''pic#1.jpg'', quiet\<lparr>cancelDuringCodec := True\<rparr>)] fresh))))"
    by (simp only: run snd_conv) (simp add: fresh_def)
  then show ?thesis
    by (simp only: run fst_conv snd_conv) (simp add: fresh_def calm_def)
qed

text \<open>
  In the Sharp variant \<open>updateProgress\<close> leaves the callback alone once the flag is set.
\<close>

lemma updateProgress_cancelled:
  "isCancelled s \<Longrightarrow> delivered (updateProgress current totalFiles percent message s) = delivered s"
  by (simp add: updateProgress_def)

text \<open>
  C7 asks that no progress event reaches the callback once cancellation has been
  requested.  In the imagemin variant \<open>updateProgress\<close> does not look at the flag: called
  after \<open>cancel()\<close>, it delivers the event.
\<close>

theorem imagemin_progress_after_cancel:
  "im_isCancelled (im_cancel im_running)
   \<and> im_delivered (im_updateProgress 1 2 50 (js ''Completed 1/2 images'') (im_cancel im_running))
       = [\<lparr> ev_current = 1, ev_total = 2, ev_percent = 50,
             ev_message = js ''Completed 1/2 images'' \<rparr>]"
  by (simp add: im_updateProgress_def im_cancel_def im_running_def)

theorem failed_attempts_keep_output_folder_witness:
  "processSharpSequential calm
     [(imageNamed ''a.jpg'', quiet\<lparr>codec := CodecError unsupported\<rparr>),
      (imageNamed ''b.jpg'', quiet\<lparr>cancelDuringCodec := True\<rparr>)] (js ''in_compressed'') converting
     = ([Failure (js ''a.jpg'') (js ''Unsupported format in a.jpg'')],
        converting\<lparr>isCancelled := True, processedCount := 1\<rparr>)
   \<and> js ''in_compressed''
       \<in> set (dirs (disk (performCleanup (converting\<lparr>isCancelled := True, processedCount := 1\<rparr>))))
   \<and> noOutputs (js ''in_compressed'')
       (performCleanup (converting\<lparr>isCancelled := True, processedCount := 1\<rparr>))"
proof -
  note seq = sequential_failure_then_cancel
  have start: "\<not> isCancelled converting" "processedCount converting = 0"
    "tempDirectories converting = []" "currentOutputPath converting = Some (js ''in_compressed'')"
    "js ''in_compressed'' \<in> set (dirs (disk converting))" "noOutputs (js ''in_compressed'') converting"
    by (simp_all add: converting_def noOutputs_def)
  have script: "list_all (\<lambda>x. \<not> folderRemoved (snd x))
      [(imageNamed ''a.jpg'', quiet\<lparr>codec := CodecError unsupported\<rparr>),
       (imageNamed ''b.jpg'', quiet\<lparr>cancelDuringCodec := True\<rparr>)]"
    by (simp add: quiet_def)
  have ne: "js ''in_compressed'' \<noteq> env_tempDir calm"
    by (simp add: calm_def folder_names)
  from failed_attempts_keep_output_folder [OF seq start script ne] seq
  show ?thesis by simp
qed

end
